theory Spec2Isabelle
  imports Main "HOL-Library.Word" "HOL-Library.Sublist"
begin

unbundle bit_operations_syntax

section \<open>Text\<close>

text \<open>
  JavaScript strings are modelled as \<^typ>\<open>string\<close>; a character stands for the code
  unit of the same number (U+0000 to U+00FF). A value that may be \<open>undefined\<close> is an
  \<^typ>\<open>'a option\<close>; \<open>truthy\<close> is the test JavaScript applies to an optional string in
  a condition (\<open>undefined\<close> and the empty string are both false).
\<close>

definition truthy :: "string option \<Rightarrow> bool" where
  "truthy v = (case v of None \<Rightarrow> False | Some s \<Rightarrow> s \<noteq> [])"

text \<open>\<open>a || b\<close> on an optional string and a string.\<close>

definition or_else :: "string option \<Rightarrow> string \<Rightarrow> string" where
  "or_else v d = (case v of None \<Rightarrow> d | Some s \<Rightarrow> (if s = [] then d else s))"

text \<open>\<open>text.includes(pat)\<close>: \<open>pat\<close> occurs in \<open>text\<close> as a contiguous run.\<close>

fun str_includes :: "string \<Rightarrow> string \<Rightarrow> bool" where
  "str_includes [] pat = (pat = [])"
| "str_includes (c # cs) pat = (prefix pat (c # cs) \<or> str_includes cs pat)"

text \<open>
  \<open>String.prototype.trim\<close>: white space and line terminators are removed at both ends.
  In the range of \<^typ>\<open>char\<close> these are TAB, LF, VT, FF, CR, SP and NBSP.
\<close>

definition is_space :: "char \<Rightarrow> bool" where
  "is_space c = (of_char c \<in> {9, 10, 11, 12, 13, 32, 160 :: nat})"

definition trim :: "string \<Rightarrow> string" where
  "trim s = rev (dropWhile is_space (rev (dropWhile is_space s)))"

section \<open>File information\<close>

text \<open>File mode constants of the file operation engine (from \<open>stat.h\<close>).\<close>

definition S_IFMT :: "32 word" where "S_IFMT = 61440"  \<comment> \<open>0o170000, the file type mask\<close>
definition S_IFREG :: "32 word" where "S_IFREG = 32768"  \<comment> \<open>0o100000, regular file\<close>
definition S_IFDIR :: "32 word" where "S_IFDIR = 16384"  \<comment> \<open>0o040000, directory\<close>
definition S_IFLNK :: "32 word" where "S_IFLNK = 40960"  \<comment> \<open>0o120000, symbolic link\<close>

definition isDirectoryMode :: "32 word \<Rightarrow> bool" where
  "isDirectoryMode mode = (mode AND S_IFMT = S_IFDIR)"

definition isFileMode :: "32 word \<Rightarrow> bool" where
  "isFileMode mode = (mode AND S_IFMT = S_IFREG)"

definition isSymlinkMode :: "32 word \<Rightarrow> bool" where
  "isSymlinkMode mode = (mode AND S_IFMT = S_IFLNK)"

record FileInfo =
  filename :: string
  longname :: string
  isDirectory :: bool
  isFile :: bool
  isSymbolicLink :: bool
  fsize :: nat
  permissions :: "32 word"
  owner :: nat
  group :: nat
  accessTime :: nat
  modifyTime :: nat

text \<open>The transport's result of a \<open>stat\<close> call: every field is present.\<close>

record Stats =
  s_mode :: "32 word"
  s_uid :: nat
  s_gid :: nat
  s_size :: nat
  s_atime :: nat
  s_mtime :: nat

text \<open>The attributes of a directory-listing entry: every field may be missing.\<close>

record Attributes =
  a_mode :: "32 word option"
  a_uid :: "nat option"
  a_gid :: "nat option"
  a_size :: "nat option"
  a_atime :: "nat option"
  a_mtime :: "nat option"

text \<open>\<open>v ?? d\<close>.\<close>

definition nullish :: "'a option \<Rightarrow> 'a \<Rightarrow> 'a" where
  "nullish v d = (case v of None \<Rightarrow> d | Some x \<Rightarrow> x)"

text \<open>
  Modelled from the spec: the methods \<open>isDirectory()\<close>, \<open>isFile()\<close> and
  \<open>isSymbolicLink()\<close> of the transport library's \<open>Stats\<close> object are not part of the
  sources. The spec has the file-type field masked out of the permission word and compared
  against the fixed type constants, by the same rules for both ingestion paths.
\<close>

definition Stats_isDirectory :: "Stats \<Rightarrow> bool" where
  "Stats_isDirectory stats = (s_mode stats AND S_IFMT = S_IFDIR)"

definition Stats_isFile :: "Stats \<Rightarrow> bool" where
  "Stats_isFile stats = (s_mode stats AND S_IFMT = S_IFREG)"

definition Stats_isSymbolicLink :: "Stats \<Rightarrow> bool" where
  "Stats_isSymbolicLink stats = (s_mode stats AND S_IFMT = S_IFLNK)"

definition statsToFileInfo :: "string \<Rightarrow> Stats \<Rightarrow> string option \<Rightarrow> FileInfo" where
  "statsToFileInfo fname stats lname =
     \<lparr> filename = fname,
       longname = or_else lname fname,
       isDirectory = Stats_isDirectory stats,
       isFile = Stats_isFile stats,
       isSymbolicLink = Stats_isSymbolicLink stats,
       fsize = s_size stats,
       permissions = s_mode stats,
       owner = s_uid stats,
       group = s_gid stats,
       accessTime = s_atime stats * 1000,
       modifyTime = s_mtime stats * 1000 \<rparr>"

definition attrsToFileInfo :: "string \<Rightarrow> Attributes \<Rightarrow> string option \<Rightarrow> FileInfo" where
  "attrsToFileInfo fname attrs lname =
     (let mode = nullish (a_mode attrs) 0 in
      \<lparr> filename = fname,
        longname = or_else lname fname,
        isDirectory = isDirectoryMode mode,
        isFile = isFileMode mode,
        isSymbolicLink = isSymlinkMode mode,
        fsize = nullish (a_size attrs) 0,
        permissions = mode,
        owner = nullish (a_uid attrs) 0,
        group = nullish (a_gid attrs) 0,
        accessTime = nullish (a_atime attrs) 0 * 1000,
        modifyTime = nullish (a_mtime attrs) 0 * 1000 \<rparr>)"

text \<open>The type classification of a \<open>FileInfo\<close>: directory, regular file, symbolic link.\<close>

definition classification :: "FileInfo \<Rightarrow> bool \<times> bool \<times> bool" where
  "classification fi = (isDirectory fi, isFile fi, isSymbolicLink fi)"

definition count_true :: "bool \<times> bool \<times> bool \<Rightarrow> nat" where
  "count_true t = (case t of (a, b, c) \<Rightarrow> of_bool a + of_bool b + of_bool c)"

section \<open>Sessions and command results\<close>

text \<open>A private key is given as a string (a file path or the key itself) or as a buffer.\<close>

datatype private_key = KeyString string | KeyBuffer string

record SSHCredentials =
  host :: string
  port :: "nat option"
  username :: string
  password :: "string option"
  privateKey :: "private_key option"
  privateKeyPassphrase :: "string option"
  readyTimeout :: "nat option"
  connectionTimeout :: "nat option"

text \<open>
  A session. The connection handle \<open>client\<close> and the file-subsystem handle \<open>sftp\<close> are
  named by strings; \<open>sftp\<close> is \<open>null\<close> until the subsystem has been opened. The field
  \<open>id\<close> of the source is \<open>sid\<close> here.
\<close>

record SSHSession =
  sid :: string
  credentials :: SSHCredentials
  client :: string
  sftp :: "string option"
  isConnected :: bool
  lastActivity :: nat
  createdAt :: nat
  commandCount :: nat

record CommandResult =
  stdout :: string
  stderr :: string
  exitCode :: "int option"
  signal :: "string option"

text \<open>A number in a template literal (a natural number prints as its decimal digits).\<close>

function show_nat :: "nat \<Rightarrow> string" where
  "show_nat n =
     (if n < 10 then [''0123456789'' ! n] else show_nat (n div 10) @ [''0123456789'' ! (n mod 10)])"
  by pat_completeness auto
termination
  by (relation "measure id") auto

declare show_nat.simps [simp del]

section \<open>Session registry\<close>

text \<open>
  The registry: the map from session identifiers to sessions (a JavaScript \<open>Map\<close>, which
  keeps insertion order), the idle timeout and the ceiling. \<open>calls\<close> is not a field of the
  source: it records, in order, the calls the registry makes on connection handles
  (\<open>connect\<close> with host, port and user name, \<open>sftp\<close>, \<open>end\<close>).
\<close>

datatype client_call =
    ClientConnect string string nat string
  | ClientSftp string
  | ClientEnd string

record SessionManager =
  sessions :: "(string \<times> SSHSession) list"
  sessionTimeout :: nat
  maxSessions :: nat
  calls :: "client_call list"

text \<open>\<open>n || d\<close> on an optional number: \<open>undefined\<close> and \<open>0\<close> give \<open>d\<close>.\<close>

definition number_or :: "nat option \<Rightarrow> nat \<Rightarrow> nat" where
  "number_or v d = (case v of None \<Rightarrow> d | Some n \<Rightarrow> (if n = 0 then d else n))"

text \<open>The constructor: \<open>sessionTimeout || 30 * 60 * 1000\<close> and \<open>maxSessions || 100\<close>.\<close>

definition new_SessionManager :: "nat option \<Rightarrow> nat option \<Rightarrow> SessionManager" where
  "new_SessionManager timeout ceiling =
     \<lparr> sessions = [], sessionTimeout = number_or timeout (30 * 60 * 1000),
       maxSessions = number_or ceiling 100, calls = [] \<rparr>"

text \<open>
  What one call of \<open>createSession\<close> finds around it: the identifier \<open>uuidv4()\<close> returns, the
  clock, the key files on the local disk (\<open>None\<close>: no such file; \<open>Some (Inl e)\<close>: reading it
  throws \<open>e\<close>; \<open>Some (Inr k)\<close>: its content), what the transport answers to \<open>connect\<close>
  (ready, an error, or nothing before the timer fires) and the error, if any, of the
  \<open>sftp\<close> callback.
\<close>

datatype connect_event = Ready | ConnectError string | ConnectTimeout

record create_env =
  uuid :: string
  clock :: nat
  key_file :: "string \<Rightarrow> (string + string) option"
  on_connect :: connect_event
  on_sftp :: "string option"

definition has_key :: "private_key option \<Rightarrow> bool" where
  "has_key k =
     (case k of None \<Rightarrow> False | Some (KeyString s) \<Rightarrow> s \<noteq> [] | Some (KeyBuffer b) \<Rightarrow> True)"

definition loadPrivateKey :: "create_env \<Rightarrow> private_key \<Rightarrow> string + string" where
  "loadPrivateKey env key =
     (case key of
        KeyBuffer b \<Rightarrow> Inr b
      | KeyString k \<Rightarrow> (case key_file env k of Some r \<Rightarrow> r | None \<Rightarrow> Inr k))"

text \<open>
  \<open>connectClient\<close> on the handle \<open>cl\<close>: the result of the promise and the calls made on the
  handle. When the timer fires first, the handle is ended and the promise rejected.
\<close>

definition connectClient ::
  "create_env \<Rightarrow> string \<Rightarrow> SSHCredentials \<Rightarrow> (string + unit) \<times> client_call list" where
  "connectClient env cl creds =
     (let auth =
        (case privateKey creds of
           Some key \<Rightarrow>
             (if has_key (Some key)
              then (case loadPrivateKey env key of Inl e \<Rightarrow> Inl e | Inr k \<Rightarrow> Inr ())
              else if truthy (password creds) then Inr ()
              else Inl ''No authentication method provided (password or privateKey required)'')
         | None \<Rightarrow>
             (if truthy (password creds) then Inr ()
              else Inl ''No authentication method provided (password or privateKey required)''));
          connect = ClientConnect cl (host creds) (number_or (port creds) 22) (username creds)
      in case auth of
           Inl e \<Rightarrow> (Inl e, [])
         | Inr _ \<Rightarrow>
             (case on_connect env of
                Ready \<Rightarrow> (Inr (), [connect])
              | ConnectError e \<Rightarrow> (Inl e, [connect])
              | ConnectTimeout \<Rightarrow> (Inl ''SSH connection timeout'', [connect, ClientEnd cl])))"

definition initSFTP :: "create_env \<Rightarrow> string \<Rightarrow> (string + string) \<times> client_call list" where
  "initSFTP env cl =
     (case on_sftp env of
        Some err \<Rightarrow> (Inl err, [ClientSftp cl])
      | None \<Rightarrow> (Inr cl, [ClientSftp cl]))"

text \<open>
  \<open>findExistingSession\<close>: the first session, in the order of the map, whose stored
  credentials have the host, the user name and, as port, exactly \<open>credentials.port || 22\<close>.
  The comparison is \<open>===\<close>: a stored port that is \<open>undefined\<close> equals no number.
\<close>

definition same_target :: "SSHCredentials \<Rightarrow> SSHSession \<Rightarrow> bool" where
  "same_target creds s =
     (host (credentials s) = host creds
      \<and> port (credentials s) = Some (number_or (port creds) 22)
      \<and> username (credentials s) = username creds)"

definition findExistingSession :: "SessionManager \<Rightarrow> SSHCredentials \<Rightarrow> SSHSession option" where
  "findExistingSession m creds = find (same_target creds) (map snd (sessions m))"

text \<open>Assigning to a field of the first session with a property, and \<open>Map.set\<close>.\<close>

fun update_first :: "('a \<Rightarrow> bool) \<Rightarrow> ('a \<Rightarrow> 'a) \<Rightarrow> ('k \<times> 'a) list \<Rightarrow> ('k \<times> 'a) list" where
  "update_first P f [] = []"
| "update_first P f ((k, v) # kvs) =
     (if P v then (k, f v) # kvs else (k, v) # update_first P f kvs)"

fun map_set :: "'k \<Rightarrow> 'a \<Rightarrow> ('k \<times> 'a) list \<Rightarrow> ('k \<times> 'a) list" where
  "map_set k v [] = [(k, v)]"
| "map_set k v ((k', v') # kvs) =
     (if k' = k then (k, v) # kvs else (k', v') # map_set k v kvs)"

text \<open>
  \<open>createSession\<close>: the identifier or the error thrown, and the registry afterwards. The
  handle created by \<open>new Client()\<close> is named by the new session's identifier.
\<close>

definition createSession ::
  "create_env \<Rightarrow> SSHCredentials \<Rightarrow> SessionManager \<Rightarrow> (string + string) \<times> SessionManager" where
  "createSession env creds m =
     (let existingSession = findExistingSession m creds;
          sessionId = uuid env
      in if (case existingSession of None \<Rightarrow> False | Some s \<Rightarrow> isConnected s)
         then (Inr (case existingSession of None \<Rightarrow> [] | Some s \<Rightarrow> sid s),
               m\<lparr>sessions := update_first (same_target creds)
                               (\<lambda>s. s\<lparr>lastActivity := clock env\<rparr>) (sessions m)\<rparr>)
         else if length (sessions m) \<ge> maxSessions m
         then (Inl (''Maximum session limit ('' @ show_nat (maxSessions m)
                      @ '') reached. Please close some sessions.''), m)
         else (case connectClient env sessionId creds of
                 (Inl e, cs) \<Rightarrow>
                   (Inl (''Failed to create SSH session: '' @ e),
                    m\<lparr>calls := calls m @ cs @ [ClientEnd sessionId]\<rparr>)
               | (Inr _, cs) \<Rightarrow>
                   (case initSFTP env sessionId of
                      (Inl e, cs') \<Rightarrow>
                        (Inl (''Failed to create SSH session: '' @ e),
                         m\<lparr>calls := calls m @ cs @ cs' @ [ClientEnd sessionId]\<rparr>)
                    | (Inr handle, cs') \<Rightarrow>
                        (Inr sessionId,
                         m\<lparr>sessions := map_set sessionId
                              \<lparr> sid = sessionId, credentials = creds, client = sessionId,
                                sftp = Some handle, isConnected = True,
                                lastActivity = clock env, createdAt = clock env,
                                commandCount = 0 \<rparr> (sessions m),
                            calls := calls m @ cs @ cs'\<rparr>))))"

section \<open>Command execution engine\<close>

text \<open>
  The engine registers callbacks and a timer and returns a promise; what happens next is
  decided by the order in which the transport and the timer call back. A run of one call
  is therefore a list of events, handled one at a time by the code of the callback.
  \<open>ExecCallback None\<close> is the \<open>exec\<close> callback with a stream (the stream handlers are
  registered then), \<open>ExecCallback (Some e)\<close> the same callback with an error.
\<close>

datatype exec_event =
    ExecCallback "string option"
  | Data string
  | StderrData string
  | Close "int option" "string option"
  | StreamError string
  | TimerFires

text \<open>
  The state of one call: the promise (\<open>None\<close> while pending, \<open>Inl\<close> rejected, \<open>Inr\<close>
  resolved), the timer, whether the stream handlers are registered, the local variables of
  the closure, what has been written to the stream, and the session the call was given.
  \<open>requested\<close> holds the command line and the pseudo-terminal flag that the
  privilege-escalated variant hands to \<open>client.exec\<close>: the second place, besides the
  stream, where that variant sends text of its own making to the transport.
\<close>

datatype stream_write = Write string | End

record exec_state =
  settled :: "(string + CommandResult) option"
  timer_active :: bool
  opened :: bool
  out_buf :: string
  err_buf :: string
  passwordSent :: bool
  written :: "stream_write list"
  requested :: "(string \<times> bool) list"
  session :: SSHSession

text \<open>Settling a promise a second time does nothing.\<close>

definition resolve :: "CommandResult \<Rightarrow> exec_state \<Rightarrow> exec_state" where
  "resolve r st = (if settled st = None then st\<lparr>settled := Some (Inr r)\<rparr> else st)"

definition reject :: "string \<Rightarrow> exec_state \<Rightarrow> exec_state" where
  "reject e st = (if settled st = None then st\<lparr>settled := Some (Inl e)\<rparr> else st)"

definition clearTimeout :: "exec_state \<Rightarrow> exec_state" where
  "clearTimeout st = st\<lparr>timer_active := False\<rparr>"

definition initial_state :: "SSHSession \<Rightarrow> exec_state" where
  "initial_state s =
     \<lparr> settled = None, timer_active = True, opened = False, out_buf = [], err_buf = [],
       passwordSent = False, written = [], requested = [], session = s \<rparr>"

text \<open>\<open>options?.timeout || 30000\<close>.\<close>

definition timeout_of :: "nat option \<Rightarrow> nat" where
  "timeout_of t = (case t of None \<Rightarrow> 30000 | Some n \<Rightarrow> (if n = 0 then 30000 else n))"

text \<open>
  \<open>session.commandCount++; session.lastActivity = Date.now()\<close>, the clock reading
  \<open>now\<close>.
\<close>

definition count_command :: "nat \<Rightarrow> exec_state \<Rightarrow> exec_state" where
  "count_command now st =
     st\<lparr>session := (session st)\<lparr>commandCount := commandCount (session st) + 1,
                                lastActivity := now\<rparr>\<rparr>"

subsection \<open>executeCommand\<close>

fun executeCommand_on :: "nat \<Rightarrow> nat \<Rightarrow> exec_event \<Rightarrow> exec_state \<Rightarrow> exec_state" where
  "executeCommand_on t now TimerFires st =
     (if timer_active st
      then reject (''Command execution timeout after '' @ show_nat t @ ''ms'')
             (st\<lparr>timer_active := False\<rparr>)
      else st)"
| "executeCommand_on t now (ExecCallback (Some err)) st = reject err (clearTimeout st)"
| "executeCommand_on t now (ExecCallback None) st = st\<lparr>opened := True\<rparr>"
| "executeCommand_on t now (Close code sig) st =
     (if opened st
      then (let st1 = count_command now (clearTimeout st)
            in resolve \<lparr> stdout = trim (out_buf st1), stderr = trim (err_buf st1),
                         exitCode = code, signal = sig \<rparr> st1)
      else st)"
| "executeCommand_on t now (Data d) st =
     (if opened st then st\<lparr>out_buf := out_buf st @ d\<rparr> else st)"
| "executeCommand_on t now (StderrData d) st =
     (if opened st then st\<lparr>err_buf := err_buf st @ d\<rparr> else st)"
| "executeCommand_on t now (StreamError e) st =
     (if opened st then reject e (clearTimeout st) else st)"

text \<open>
  The call on session \<open>s\<close> after the events \<open>evs\<close>; \<open>settled\<close> of the result is what
  the caller has got by then, \<open>session\<close> of it is the session object.
\<close>

definition executeCommand :: "SSHSession \<Rightarrow> nat option \<Rightarrow> nat \<Rightarrow> exec_event list \<Rightarrow> exec_state" where
  "executeCommand s timeout now evs =
     foldl (\<lambda>st ev. executeCommand_on (timeout_of timeout) now ev st) (initial_state s) evs"

subsection \<open>executeWithInput\<close>

fun executeWithInput_on ::
  "string \<Rightarrow> nat \<Rightarrow> nat \<Rightarrow> exec_event \<Rightarrow> exec_state \<Rightarrow> exec_state" where
  "executeWithInput_on inp t now TimerFires st =
     (if timer_active st
      then reject (''Command execution timeout after '' @ show_nat t @ ''ms'')
             (st\<lparr>timer_active := False\<rparr>)
      else st)"
| "executeWithInput_on inp t now (ExecCallback (Some err)) st = reject err (clearTimeout st)"
| "executeWithInput_on inp t now (ExecCallback None) st =
     st\<lparr>opened := True, written := written st @ [Write inp, End]\<rparr>"
| "executeWithInput_on inp t now (Close code sig) st =
     (if opened st
      then (let st1 = count_command now (clearTimeout st)
            in resolve \<lparr> stdout = trim (out_buf st1), stderr = trim (err_buf st1),
                         exitCode = code, signal = sig \<rparr> st1)
      else st)"
| "executeWithInput_on inp t now (Data d) st =
     (if opened st then st\<lparr>out_buf := out_buf st @ d\<rparr> else st)"
| "executeWithInput_on inp t now (StderrData d) st =
     (if opened st then st\<lparr>err_buf := err_buf st @ d\<rparr> else st)"
| "executeWithInput_on inp t now (StreamError e) st =
     (if opened st then reject e (clearTimeout st) else st)"

definition executeWithInput ::
  "SSHSession \<Rightarrow> string \<Rightarrow> nat option \<Rightarrow> nat \<Rightarrow> exec_event list \<Rightarrow> exec_state" where
  "executeWithInput s inp timeout now evs =
     foldl (\<lambda>st ev. executeWithInput_on inp (timeout_of timeout) now ev st) (initial_state s) evs"

subsection \<open>executeSudoCommand\<close>

text \<open>\<open>strip_prefix p s\<close> is the rest of \<open>s\<close> after its prefix \<open>p\<close>, if \<open>s\<close> starts with \<open>p\<close>.\<close>

fun strip_prefix :: "string \<Rightarrow> string \<Rightarrow> string option" where
  "strip_prefix [] s = Some s"
| "strip_prefix (p # ps) [] = None"
| "strip_prefix (p # ps) (c # cs) = (if p = c then strip_prefix ps cs else None)"

lemma strip_prefix_length: "strip_prefix p s = Some r \<Longrightarrow> length r + length p = length s"
  by (induction p s rule: strip_prefix.induct) (auto split: if_splits)

text \<open>
  The regular expression \<open>\[sudo\] password for .+?:\<close> at the start of a text. The dot
  matches any character but a line terminator (LF and CR in the range of \<^typ>\<open>char\<close>);
  \<open>.+?\<close> takes one character and then as few more as possible up to a colon.
\<close>

definition is_line_terminator :: "char \<Rightarrow> bool" where
  "is_line_terminator c = (c = CHR 0x0A \<or> c = CHR 0x0D)"

fun until_colon :: "string \<Rightarrow> string option" where
  "until_colon [] = None"
| "until_colon (c # cs) =
     (if c = CHR '':'' then Some cs
      else if is_line_terminator c then None
      else until_colon cs)"

definition match_sudo_prompt :: "string \<Rightarrow> string option" where
  "match_sudo_prompt s =
     (case strip_prefix ''[sudo] password for '' s of
        None \<Rightarrow> None
      | Some [] \<Rightarrow> None
      | Some (c # cs) \<Rightarrow> (if is_line_terminator c then None else until_colon cs))"

lemma until_colon_length: "until_colon s = Some r \<Longrightarrow> length r < length s"
  by (induction s) (auto split: if_splits)

lemma match_sudo_prompt_length: "match_sudo_prompt s = Some r \<Longrightarrow> length r < length s"
  by (auto simp: match_sudo_prompt_def split: option.splits list.splits if_splits
      dest!: strip_prefix_length until_colon_length)

text \<open>\<open>.replace(/\[sudo\] password for .+?:/g, '')\<close>: every match, left to right, is cut out.\<close>

function remove_sudo_prompts :: "string \<Rightarrow> string" where
  "remove_sudo_prompts [] = []"
| "remove_sudo_prompts (c # cs) =
     (case match_sudo_prompt (c # cs) of
        Some rest \<Rightarrow> remove_sudo_prompts rest
      | None \<Rightarrow> c # remove_sudo_prompts cs)"
  by pat_completeness auto
termination
  by (relation "measure length") (auto dest: match_sudo_prompt_length)

lemma strip_prefix_shorter: "strip_prefix p s = Some r \<Longrightarrow> p \<noteq> [] \<Longrightarrow> length r < length s"
  by (cases p) (auto dest!: strip_prefix_length)

text \<open>\<open>.replace(/pat/g, '')\<close> for a literal \<open>pat\<close>.\<close>

function remove_all :: "string \<Rightarrow> string \<Rightarrow> string" where
  "remove_all pat [] = []"
| "remove_all pat (c # cs) =
     (case strip_prefix pat (c # cs) of
        Some rest \<Rightarrow> (if pat = [] then c # remove_all pat cs else remove_all pat rest)
      | None \<Rightarrow> c # remove_all pat cs)"
  by pat_completeness auto
termination
  by (relation "measure (\<lambda>(pat, s). length s)") (auto dest: strip_prefix_shorter)

definition cleanStderr :: "string \<Rightarrow> string" where
  "cleanStderr e = trim (remove_all ''Password:'' (remove_sudo_prompts e))"

text \<open>
  The command line sent to the transport: with a password, the password is put in single
  quotes (each quote of it written as quote, backslash, quote, quote) and piped to
  \<open>sudo -S\<close>, and a pseudo-terminal is requested.
\<close>

definition escape_quotes :: "string \<Rightarrow> string" where
  "escape_quotes s =
     concat (map (\<lambda>c. if c = CHR 0x27 then [CHR 0x27, CHR 0x5C, CHR 0x27, CHR 0x27] else [c]) s)"

definition sudoCommand :: "string option \<Rightarrow> string \<Rightarrow> string" where
  "sudoCommand sudoPassword command =
     (if truthy sudoPassword
      then ''echo '' @ [CHR 0x27] @ escape_quotes (or_else sudoPassword []) @ [CHR 0x27]
             @ '' | sudo -S '' @ command
      else ''sudo '' @ command)"

definition sudo_pty :: "string option \<Rightarrow> bool" where
  "sudo_pty sudoPassword = truthy sudoPassword"

text \<open>The handler of the stream's \<open>data\<close> event.\<close>

definition sudo_on_data :: "string option \<Rightarrow> string \<Rightarrow> exec_state \<Rightarrow> exec_state" where
  "sudo_on_data sudoPassword chunk st =
     (if \<not> passwordSent st \<and> truthy sudoPassword
         \<and> (str_includes chunk ''password'' \<or> str_includes chunk ''Password'')
      then st\<lparr>written := written st @ [Write (or_else sudoPassword [] @ [CHR 0x0A])],
              passwordSent := True\<rparr>
      else st\<lparr>out_buf := out_buf st @ chunk\<rparr>)"

fun executeSudoCommand_on ::
  "string option \<Rightarrow> nat \<Rightarrow> nat \<Rightarrow> exec_event \<Rightarrow> exec_state \<Rightarrow> exec_state" where
  "executeSudoCommand_on pw t now TimerFires st =
     (if timer_active st
      then reject (''Sudo command execution timeout after '' @ show_nat t @ ''ms'')
             (st\<lparr>timer_active := False\<rparr>)
      else st)"
| "executeSudoCommand_on pw t now (ExecCallback (Some err)) st = reject err (clearTimeout st)"
| "executeSudoCommand_on pw t now (ExecCallback None) st = st\<lparr>opened := True\<rparr>"
| "executeSudoCommand_on pw t now (Close code sig) st =
     (if opened st
      then (let st1 = count_command now (clearTimeout st)
            in resolve \<lparr> stdout = trim (out_buf st1), stderr = cleanStderr (err_buf st1),
                         exitCode = code, signal = sig \<rparr> st1)
      else st)"
| "executeSudoCommand_on pw t now (Data d) st =
     (if opened st then sudo_on_data pw d st else st)"
| "executeSudoCommand_on pw t now (StderrData d) st =
     (if opened st then st\<lparr>err_buf := err_buf st @ d\<rparr> else st)"
| "executeSudoCommand_on pw t now (StreamError e) st =
     (if opened st then reject e (clearTimeout st) else st)"

text \<open>
  The call starts by handing the wrapped command line to \<open>client.exec\<close>, with a
  pseudo-terminal when a password was supplied; the events follow.
\<close>

definition executeSudoCommand ::
  "SSHSession \<Rightarrow> string \<Rightarrow> string option \<Rightarrow> nat option \<Rightarrow> nat \<Rightarrow> exec_event list
     \<Rightarrow> exec_state" where
  "executeSudoCommand s command sudoPassword timeout now evs =
     foldl (\<lambda>st ev. executeSudoCommand_on sudoPassword (timeout_of timeout) now ev st)
       ((initial_state s)\<lparr>requested := [(sudoCommand sudoPassword command, sudo_pty sudoPassword)]\<rparr>)
       evs"






text \<open>
  The spec's test for a password prompt: a match on \<open>password\<close> that ignores case.
\<close>

definition lower_char :: "char \<Rightarrow> char" where
  "lower_char c =
     (case map_of (zip ''ABCDEFGHIJKLMNOPQRSTUVWXYZ'' ''abcdefghijklmnopqrstuvwxyz'') c of
        Some l \<Rightarrow> l
      | None \<Rightarrow> c)"

definition includes_ignoring_case :: "string \<Rightarrow> string \<Rightarrow> bool" where
  "includes_ignoring_case chunk pat = str_includes (map lower_char chunk) (map lower_char pat)"

section \<open>File operation engine\<close>

subsection \<open>The world around a file operation\<close>

text \<open>
  The file operations act on the remote file system through the transport's file-subsystem
  handle, and on the local disk through the platform's \<open>fs\<close> module. Neither is part of
  the sources; both are modelled here by a small file system, so that the operations can be
  run.

  The remote file system is the list of its entries, in the order a directory listing
  returns them: a path and the attributes stored for it. Paths are compared as strings (no
  \<open>.\<close>, \<open>..\<close>, doubled or trailing slash is resolved). An entry is in the directory \<open>d\<close>
  when its path is \<open>d\<close>, a slash and a name without slash. The server refuses every
  operation on a path in \<open>denied\<close>. The status messages are the transport's:
  \<open>No such file\<close>, \<open>Permission denied\<close>, \<open>Failure\<close>.

  \<open>the_session\<close> is the session object the operation was given, \<open>date_now\<close> the clock, and
  \<open>sftp_calls\<close> records the calls made on the handle, in order.
\<close>

datatype local_node = LocalDir | LocalFile | LocalUnreadable | LocalDangling

datatype sftp_call =
    Stat string
  | Readdir string
  | Mkdir string
  | Unlink string
  | Rmdir string
  | FastPut string string
  | FastGet string string

record world =
  remote :: "(string \<times> Stats) list"
  denied :: "string list"
  localfs :: "(string \<times> local_node) list"
  date_now :: nat
  the_session :: SSHSession
  sftp_calls :: "sftp_call list"

record FileEntry =
  fe_filename :: string
  fe_longname :: string
  fe_attrs :: Attributes

definition is_dir_stats :: "Stats \<Rightarrow> bool" where
  "is_dir_stats st = (s_mode st AND S_IFMT = S_IFDIR)"

text \<open>\<open>path.dirname\<close> and \<open>path.basename\<close> of a path without trailing slash.\<close>

definition dirname :: "string \<Rightarrow> string" where
  "dirname p = rev (drop 1 (dropWhile (\<lambda>c. c \<noteq> CHR ''/'') (rev p)))"

definition basename :: "string \<Rightarrow> string" where
  "basename p = rev (takeWhile (\<lambda>c. c \<noteq> CHR ''/'') (rev p))"

text \<open>The name of \<open>p\<close> in the directory \<open>d\<close>, when \<open>p\<close> is an entry of \<open>d\<close>.\<close>

definition child_name :: "string \<Rightarrow> string \<Rightarrow> string option" where
  "child_name d p =
     (case strip_prefix (d @ ''/'') p of
        None \<Rightarrow> None
      | Some n \<Rightarrow> (if n \<noteq> [] \<and> CHR ''/'' \<notin> set n then Some n else None))"

text \<open>\<open>p\<close> lies below the directory \<open>d\<close>, at any depth.\<close>

definition below :: "string \<Rightarrow> string \<Rightarrow> bool" where
  "below d p = prefix (d @ ''/'') p"

text \<open>The parent of a path exists: it is a directory, or the path has no parent written.\<close>

definition parent_ok :: "(string \<times> Stats) list \<Rightarrow> string \<Rightarrow> bool" where
  "parent_ok fs p =
     (dirname p = [] \<or> (case map_of fs (dirname p) of None \<Rightarrow> False | Some st \<Rightarrow> is_dir_stats st))"

definition attrs_of :: "Stats \<Rightarrow> Attributes" where
  "attrs_of st =
     \<lparr> a_mode = Some (s_mode st), a_uid = Some (s_uid st), a_gid = Some (s_gid st),
       a_size = Some (s_size st), a_atime = Some (s_atime st), a_mtime = Some (s_mtime st) \<rparr>"

definition new_stats :: "32 word \<Rightarrow> nat \<Rightarrow> Stats" where
  "new_stats mode t =
     \<lparr> s_mode = mode, s_uid = 0, s_gid = 0, s_size = 0, s_atime = t, s_mtime = t \<rparr>"

subsection \<open>The transport's single-level primitives\<close>

definition srv_stat :: "string \<Rightarrow> world \<Rightarrow> string + Stats" where
  "srv_stat p w =
     (if p \<in> set (denied w) then Inl ''Permission denied''
      else case map_of (remote w) p of
             None \<Rightarrow> Inl ''No such file''
           | Some st \<Rightarrow> Inr st)"

definition listing :: "string \<Rightarrow> (string \<times> Stats) list \<Rightarrow> FileEntry list" where
  "listing d fs =
     concat (map (\<lambda>(p, st). case child_name d p of
                               None \<Rightarrow> []
                             | Some n \<Rightarrow> [\<lparr> fe_filename = n, fe_longname = n, fe_attrs = attrs_of st \<rparr>])
                 fs)"

definition srv_readdir :: "string \<Rightarrow> world \<Rightarrow> string + FileEntry list" where
  "srv_readdir p w =
     (if p \<in> set (denied w) then Inl ''Permission denied''
      else case map_of (remote w) p of
             None \<Rightarrow> Inl ''No such file''
           | Some st \<Rightarrow> (if is_dir_stats st then Inr (listing p (remote w)) else Inl ''Failure''))"

definition srv_mkdir :: "string \<Rightarrow> 32 word \<Rightarrow> world \<Rightarrow> string + world" where
  "srv_mkdir p mode w =
     (if p \<in> set (denied w) then Inl ''Permission denied''
      else if map_of (remote w) p \<noteq> None then Inl ''Failure''
      else if \<not> parent_ok (remote w) p then Inl ''No such file''
      else Inr (w\<lparr>remote := remote w @ [(p, new_stats (S_IFDIR OR mode) (date_now w))]\<rparr>))"

definition srv_unlink :: "string \<Rightarrow> world \<Rightarrow> string + world" where
  "srv_unlink p w =
     (if p \<in> set (denied w) then Inl ''Permission denied''
      else case map_of (remote w) p of
             None \<Rightarrow> Inl ''No such file''
           | Some st \<Rightarrow>
               (if is_dir_stats st then Inl ''Failure''
                else Inr (w\<lparr>remote := filter (\<lambda>(q, _). q \<noteq> p) (remote w)\<rparr>)))"

definition srv_rmdir :: "string \<Rightarrow> world \<Rightarrow> string + world" where
  "srv_rmdir p w =
     (if p \<in> set (denied w) then Inl ''Permission denied''
      else case map_of (remote w) p of
             None \<Rightarrow> Inl ''No such file''
           | Some st \<Rightarrow>
               (if \<not> is_dir_stats st then Inl ''Failure''
                else if list_ex (\<lambda>(q, _). below p q) (remote w) then Inl ''Failure''
                else Inr (w\<lparr>remote := filter (\<lambda>(q, _). q \<noteq> p) (remote w)\<rparr>)))"

subsection \<open>Single-entry operations\<close>

definition called :: "sftp_call \<Rightarrow> world \<Rightarrow> world" where
  "called c w = w\<lparr>sftp_calls := sftp_calls w @ [c]\<rparr>"

text \<open>\<open>session.lastActivity = Date.now()\<close>.\<close>

definition touch :: "world \<Rightarrow> world" where
  "touch w = w\<lparr>the_session := (the_session w)\<lparr>lastActivity := date_now w\<rparr>\<rparr>"

definition getSFTP :: "world \<Rightarrow> string + string" where
  "getSFTP w =
     (case sftp (the_session w) of
        None \<Rightarrow> Inl ''SFTP client not initialized''
      | Some h \<Rightarrow> Inr h)"

definition stat :: "string \<Rightarrow> world \<Rightarrow> (string + FileInfo) \<times> world" where
  "stat remotePath w =
     (case getSFTP w of
        Inl e \<Rightarrow> (Inl e, w)
      | Inr _ \<Rightarrow>
          (case srv_stat remotePath w of
             Inl msg \<Rightarrow> (Inl (''Failed to get stats: '' @ msg), called (Stat remotePath) w)
           | Inr stats \<Rightarrow>
               (Inr (statsToFileInfo (basename remotePath) stats None),
                touch (called (Stat remotePath) w))))"

definition exists_remote :: "string \<Rightarrow> world \<Rightarrow> bool \<times> world" where
  "exists_remote remotePath w =
     (case stat remotePath w of (Inl _, w') \<Rightarrow> (False, w') | (Inr _, w') \<Rightarrow> (True, w'))"

record DirectoryListing =
  dl_path :: string
  entries :: "FileInfo list"
  count :: nat

definition listDirectory :: "string \<Rightarrow> world \<Rightarrow> (string + DirectoryListing) \<times> world" where
  "listDirectory remotePath w =
     (case getSFTP w of
        Inl e \<Rightarrow> (Inl e, w)
      | Inr _ \<Rightarrow>
          (case srv_readdir remotePath w of
             Inl msg \<Rightarrow> (Inl (''Failed to list directory: '' @ msg), called (Readdir remotePath) w)
           | Inr list \<Rightarrow>
               (let es = map (\<lambda>entry. attrsToFileInfo (fe_filename entry) (fe_attrs entry)
                                        (Some (fe_longname entry))) list
                in (Inr \<lparr> dl_path = remotePath, entries = es, count = length es \<rparr>,
                    touch (called (Readdir remotePath) w)))))"

definition unlink :: "string \<Rightarrow> world \<Rightarrow> (string + unit) \<times> world" where
  "unlink remotePath w =
     (case getSFTP w of
        Inl e \<Rightarrow> (Inl e, w)
      | Inr _ \<Rightarrow>
          (case srv_unlink remotePath w of
             Inl msg \<Rightarrow> (Inl (''Failed to delete file: '' @ msg), called (Unlink remotePath) w)
           | Inr w' \<Rightarrow> (Inr (), touch (called (Unlink remotePath) w'))))"

definition rmdir :: "string \<Rightarrow> world \<Rightarrow> (string + unit) \<times> world" where
  "rmdir remotePath w =
     (case getSFTP w of
        Inl e \<Rightarrow> (Inl e, w)
      | Inr _ \<Rightarrow>
          (case srv_rmdir remotePath w of
             Inl msg \<Rightarrow> (Inl (''Failed to remove directory: '' @ msg), called (Rmdir remotePath) w)
           | Inr w' \<Rightarrow> (Inr (), touch (called (Rmdir remotePath) w'))))"

subsection \<open>mkdir\<close>

text \<open>\<open>s.split(sep)\<close> for a one-character separator.\<close>

fun split_on :: "char \<Rightarrow> string \<Rightarrow> string list" where
  "split_on sep [] = [[]]"
| "split_on sep (c # cs) =
     (if c = sep then [] # split_on sep cs
      else (case split_on sep cs of [] \<Rightarrow> [[c]] | x # xs \<Rightarrow> (c # x) # xs))"

text \<open>\<open>remotePath.split('/').filter(Boolean)\<close>.\<close>

definition path_parts :: "string \<Rightarrow> string list" where
  "path_parts remotePath = filter (\<lambda>s. s \<noteq> []) (split_on CHR ''/'' remotePath)"

text \<open>\<open>currentPath === '.' ? part : `${currentPath}/${part}`\<close>.\<close>

definition next_path :: "string \<Rightarrow> string \<Rightarrow> string" where
  "next_path currentPath part = (if currentPath = ''.'' then part else currentPath @ ''/'' @ part)"

definition start_path :: "string \<Rightarrow> string" where
  "start_path remotePath = (if prefix ''/'' remotePath then [] else ''.'')"

text \<open>
  The loop of \<open>mkdirRecursive\<close> over the remaining parts: a prefix that \<open>stat\<close> finds is
  left alone; otherwise it is created, and the transport's answer \<open>Failure\<close> is tolerated.
\<close>

fun mkdirRecursive_loop ::
  "32 word \<Rightarrow> string \<Rightarrow> string list \<Rightarrow> world \<Rightarrow> (string + unit) \<times> world" where
  "mkdirRecursive_loop mode currentPath [] w = (Inr (), w)"
| "mkdirRecursive_loop mode currentPath (part # parts) w =
     (let cur = next_path currentPath part in
      case stat cur w of
        (Inr _, w1) \<Rightarrow> mkdirRecursive_loop mode cur parts w1
      | (Inl _, w1) \<Rightarrow>
          (case srv_mkdir cur mode w1 of
             Inl msg \<Rightarrow>
               (if msg \<noteq> ''Failure''
                then (Inl (''Failed to create directory '' @ cur @ '': '' @ msg),
                      called (Mkdir cur) w1)
                else mkdirRecursive_loop mode cur parts (called (Mkdir cur) w1))
           | Inr w2 \<Rightarrow> mkdirRecursive_loop mode cur parts (called (Mkdir cur) w2)))"

definition mkdirRecursive :: "string \<Rightarrow> 32 word \<Rightarrow> world \<Rightarrow> (string + unit) \<times> world" where
  "mkdirRecursive remotePath mode w =
     (case getSFTP w of
        Inl e \<Rightarrow> (Inl e, w)
      | Inr _ \<Rightarrow>
          (case mkdirRecursive_loop mode (start_path remotePath) (path_parts remotePath) w of
             (Inl e, w') \<Rightarrow> (Inl e, w')
           | (Inr _, w') \<Rightarrow> (Inr (), touch w')))"

record mkdir_options =
  mk_recursive :: "bool option"
  mk_mode :: "32 word option"

definition mkdir :: "string \<Rightarrow> mkdir_options option \<Rightarrow> world \<Rightarrow> (string + unit) \<times> world" where
  "mkdir remotePath options w =
     (case getSFTP w of
        Inl e \<Rightarrow> (Inl e, w)
      | Inr _ \<Rightarrow>
          (let recursive = (case options of None \<Rightarrow> False | Some opts \<Rightarrow> nullish (mk_recursive opts) False);
               mode = (case options of None \<Rightarrow> 493 | Some opts \<Rightarrow> nullish (mk_mode opts) 493)
           in if recursive then mkdirRecursive remotePath mode w
              else (case srv_mkdir remotePath mode w of
                      Inl msg \<Rightarrow> (Inl (''Failed to create directory: '' @ msg),
                                   called (Mkdir remotePath) w)
                    | Inr w' \<Rightarrow> (Inr (), touch (called (Mkdir remotePath) w')))))"

text \<open>The prefixes the loop visits, in order.\<close>

fun visited_prefixes :: "string \<Rightarrow> string list \<Rightarrow> string list" where
  "visited_prefixes currentPath [] = []"
| "visited_prefixes currentPath (part # parts) =
     next_path currentPath part # visited_prefixes (next_path currentPath part) parts"

subsection \<open>remove\<close>

text \<open>
  \<open>removeRecursive\<close> follows the listings the server returns, so the depth of its recursion
  is not known from its arguments: the model counts it down. \<open>None\<close> is the answer of a run
  that would need a deeper recursion than \<open>fuel\<close>.
\<close>

fun removeRecursive :: "nat \<Rightarrow> string \<Rightarrow> world \<Rightarrow> (string + unit) option \<times> world"
  and removeRecursive_loop ::
    "nat \<Rightarrow> string \<Rightarrow> FileInfo list \<Rightarrow> world \<Rightarrow> (string + unit) option \<times> world" where
  "removeRecursive 0 remotePath w = (None, w)"
| "removeRecursive (Suc fuel) remotePath w =
     (case listDirectory remotePath w of
        (Inl e, w1) \<Rightarrow> (Some (Inl e), w1)
      | (Inr lst, w1) \<Rightarrow>
          (case removeRecursive_loop fuel remotePath (entries lst) w1 of
             (Some (Inr _), w2) \<Rightarrow> (case rmdir remotePath w2 of (r, w3) \<Rightarrow> (Some r, w3))
           | (r, w2) \<Rightarrow> (r, w2)))"
| "removeRecursive_loop fuel remotePath [] w = (Some (Inr ()), w)"
| "removeRecursive_loop fuel remotePath (entry # rest) w =
     (let entryPath = remotePath @ ''/'' @ filename entry in
      case (if isDirectory entry then removeRecursive fuel entryPath w
            else (case unlink entryPath w of (r, w1) \<Rightarrow> (Some r, w1))) of
        (Some (Inr _), w1) \<Rightarrow> removeRecursive_loop fuel remotePath rest w1
      | (r, w1) \<Rightarrow> (r, w1))"

record remove_options =
  rm_recursive :: "bool option"

text \<open>\<open>options?.recursive ?? false\<close>.\<close>

definition wants_recursive :: "remove_options option \<Rightarrow> bool" where
  "wants_recursive options =
     (case options of None \<Rightarrow> False | Some opts \<Rightarrow> nullish (rm_recursive opts) False)"

definition remove ::
  "nat \<Rightarrow> string \<Rightarrow> remove_options option \<Rightarrow> world \<Rightarrow> (string + unit) option \<times> world" where
  "remove fuel remotePath options w =
     (let recursive = wants_recursive options;
          attempt =
            (case stat remotePath w of
               (Inl e, w1) \<Rightarrow> (Some (Inl e), w1)
             | (Inr stats, w1) \<Rightarrow>
                 (if isDirectory stats
                  then (if recursive then removeRecursive fuel remotePath w1
                        else (case rmdir remotePath w1 of (r, w2) \<Rightarrow> (Some r, w2)))
                  else (case unlink remotePath w1 of (r, w2) \<Rightarrow> (Some r, w2))))
      in case attempt of
           (Some (Inl message), w') \<Rightarrow> (Some (Inl (''Failed to remove: '' @ message)), w')
         | (r, w') \<Rightarrow> (r, w'))"

subsection \<open>The local disk\<close>

text \<open>
  The local disk is a list of paths with their kinds, in the order a directory is read: a
  directory, a regular file, a regular file that cannot be opened for reading, and a
  symbolic link whose target is missing (it is listed, but does not exist for
  \<open>existsSync\<close>). The root and the working directory, written as the empty path, always
  exist.
\<close>

record Dirent =
  d_name :: string
  d_isDirectory :: bool

definition existsSync :: "string \<Rightarrow> world \<Rightarrow> bool" where
  "existsSync p w =
     (case map_of (localfs w) p of
        None \<Rightarrow> False
      | Some LocalDangling \<Rightarrow> False
      | Some _ \<Rightarrow> True)"

definition dirents :: "string \<Rightarrow> (string \<times> local_node) list \<Rightarrow> Dirent list" where
  "dirents d fs =
     concat (map (\<lambda>(p, node). case child_name d p of
                                 None \<Rightarrow> []
                               | Some n \<Rightarrow> [\<lparr> d_name = n, d_isDirectory = (node = LocalDir) \<rparr>])
                 fs)"

definition readdirSync :: "string \<Rightarrow> world \<Rightarrow> string + Dirent list" where
  "readdirSync p w =
     (case map_of (localfs w) p of
        Some LocalDir \<Rightarrow> Inr (dirents p (localfs w))
      | Some LocalFile \<Rightarrow> Inl (''ENOTDIR: not a directory, scandir '' @ p)
      | Some LocalUnreadable \<Rightarrow> Inl (''ENOTDIR: not a directory, scandir '' @ p)
      | Some LocalDangling \<Rightarrow> Inl (''ENOENT: no such file or directory, scandir '' @ p)
      | None \<Rightarrow> Inl (''ENOENT: no such file or directory, scandir '' @ p))"

text \<open>\<open>fs.mkdirSync(p, { recursive: true })\<close>: every missing prefix is created.\<close>

fun mkdirSync_loop :: "string list \<Rightarrow> world \<Rightarrow> string + world" where
  "mkdirSync_loop [] w = Inr w"
| "mkdirSync_loop (q # qs) w =
     (case map_of (localfs w) q of
        None \<Rightarrow> mkdirSync_loop qs (w\<lparr>localfs := localfs w @ [(q, LocalDir)]\<rparr>)
      | Some LocalDir \<Rightarrow> mkdirSync_loop qs w
      | Some _ \<Rightarrow> Inl (''ENOTDIR: not a directory, mkdir '' @ q))"

definition mkdirSync :: "string \<Rightarrow> world \<Rightarrow> string + world" where
  "mkdirSync p w = mkdirSync_loop (visited_prefixes (start_path p) (path_parts p)) w"

text \<open>\<open>path.join(dir, name)\<close> for a directory path without trailing slash and a plain name.\<close>

definition path_join :: "string \<Rightarrow> string \<Rightarrow> string" where
  "path_join d n = d @ ''/'' @ n"

subsection \<open>The transport's bulk primitives\<close>

text \<open>
  \<open>fastPut\<close> reads the local file and writes the remote one, \<open>fastGet\<close> the other way
  round. Only the existence and the kind of a file are modelled, not its content.
\<close>

definition srv_fastPut :: "string \<Rightarrow> string \<Rightarrow> 32 word \<Rightarrow> world \<Rightarrow> string + world" where
  "srv_fastPut localPath remotePath mode w =
     (case map_of (localfs w) localPath of
        None \<Rightarrow> Inl (''ENOENT: no such file or directory, open '' @ localPath)
      | Some LocalDangling \<Rightarrow> Inl (''ENOENT: no such file or directory, open '' @ localPath)
      | Some LocalUnreadable \<Rightarrow> Inl (''EACCES: permission denied, open '' @ localPath)
      | Some LocalDir \<Rightarrow> Inl ''EISDIR: illegal operation on a directory, read''
      | Some LocalFile \<Rightarrow>
          (if remotePath \<in> set (denied w) then Inl ''Permission denied''
           else if \<not> parent_ok (remote w) remotePath then Inl ''No such file''
           else case map_of (remote w) remotePath of
                  None \<Rightarrow> Inr (w\<lparr>remote := remote w
                                   @ [(remotePath, new_stats (S_IFREG OR mode) (date_now w))]\<rparr>)
                | Some st \<Rightarrow> (if is_dir_stats st then Inl ''Failure'' else Inr w)))"

definition srv_fastGet :: "string \<Rightarrow> string \<Rightarrow> world \<Rightarrow> string + world" where
  "srv_fastGet remotePath localPath w =
     (if remotePath \<in> set (denied w) then Inl ''Permission denied''
      else case map_of (remote w) remotePath of
             None \<Rightarrow> Inl ''No such file''
           | Some st \<Rightarrow>
               (if is_dir_stats st then Inl ''Failure''
                else if dirname localPath \<noteq> [] \<and> map_of (localfs w) (dirname localPath) \<noteq> Some LocalDir
                then Inl (''ENOENT: no such file or directory, open '' @ localPath)
                else case map_of (localfs w) localPath of
                       None \<Rightarrow> Inr (w\<lparr>localfs := localfs w @ [(localPath, LocalFile)]\<rparr>)
                     | Some LocalDir \<Rightarrow>
                         Inl (''EISDIR: illegal operation on a directory, open '' @ localPath)
                     | Some _ \<Rightarrow> Inr (w\<lparr>localfs := map_set localPath LocalFile (localfs w)\<rparr>)))"

subsection \<open>Transfers\<close>

record FileTransferOptions =
  ft_recursive :: "bool option"
  ft_overwrite :: "bool option"
  ft_permissions :: "32 word option"

record TransferResult =
  success :: bool
  transferred :: "string list"
  failed :: "string list"
  errors :: "(string \<times> string) list"

text \<open>\<open>!options?.overwrite\<close> and \<open>options?.permissions\<close> as a condition.\<close>

definition no_overwrite :: "FileTransferOptions option \<Rightarrow> bool" where
  "no_overwrite options =
     (case options of None \<Rightarrow> True | Some opts \<Rightarrow> \<not> nullish (ft_overwrite opts) False)"

definition put_mode :: "FileTransferOptions option \<Rightarrow> 32 word" where
  "put_mode options =
     (case options of
        None \<Rightarrow> 420
      | Some opts \<Rightarrow> (case ft_permissions opts of
                       None \<Rightarrow> 420
                     | Some m \<Rightarrow> (if m = 0 then 420 else m)))"

definition uploadFile ::
  "string \<Rightarrow> string \<Rightarrow> FileTransferOptions option \<Rightarrow> world \<Rightarrow> (string + unit) \<times> world" where
  "uploadFile localPath remotePath options w =
     (case getSFTP w of
        Inl e \<Rightarrow> (Inl e, w)
      | Inr _ \<Rightarrow>
          (if \<not> existsSync localPath w then (Inl (''Local file not found: '' @ localPath), w)
           else
             (let (conflict, w1) =
                    (if no_overwrite options then exists_remote remotePath w else (False, w))
              in if conflict then (Inl (''Remote file already exists: '' @ remotePath), w1)
                 else (case srv_fastPut localPath remotePath (put_mode options) w1 of
                         Inl msg \<Rightarrow> (Inl (''Failed to upload file: '' @ msg),
                                      called (FastPut localPath remotePath) w1)
                       | Inr w2 \<Rightarrow> (Inr (), touch (called (FastPut localPath remotePath) w2))))))"

definition downloadFile ::
  "string \<Rightarrow> string \<Rightarrow> FileTransferOptions option \<Rightarrow> world \<Rightarrow> (string + unit) \<times> world" where
  "downloadFile remotePath localPath options w =
     (case getSFTP w of
        Inl e \<Rightarrow> (Inl e, w)
      | Inr _ \<Rightarrow>
          (case exists_remote remotePath w of
             (False, w1) \<Rightarrow> (Inl (''Remote file not found: '' @ remotePath), w1)
           | (True, w1) \<Rightarrow>
               (if no_overwrite options \<and> existsSync localPath w1
                then (Inl (''Local file already exists: '' @ localPath), w1)
                else
                  (let localDir = dirname localPath in
                   case (if localDir \<noteq> [] \<and> \<not> existsSync localDir w1 then mkdirSync localDir w1
                         else Inr w1) of
                     Inl e \<Rightarrow> (Inl e, w1)
                   | Inr w2 \<Rightarrow>
                       (case srv_fastGet remotePath localPath w2 of
                          Inl msg \<Rightarrow> (Inl (''Failed to download file: '' @ msg),
                                       called (FastGet remotePath localPath) w2)
                        | Inr w3 \<Rightarrow> (Inr (), touch (called (FastGet remotePath localPath) w3)))))))"

text \<open>
  The two ways an entry changes the result in the loop of a directory transfer, besides a
  transferred file: the \<open>catch\<close> block, and
  the merge of the result of a subdirectory (\<open>push(...)\<close> on both lists and
  \<open>Object.assign\<close> on the error maps).
\<close>

definition record_failure :: "string \<Rightarrow> string \<Rightarrow> TransferResult \<Rightarrow> TransferResult" where
  "record_failure entryPath message result =
     result\<lparr> failed := failed result @ [entryPath],
             errors := map_set entryPath message (errors result),
             success := False \<rparr>"

definition merge_result :: "TransferResult \<Rightarrow> TransferResult \<Rightarrow> TransferResult" where
  "merge_result subResult result =
     result\<lparr> transferred := transferred result @ transferred subResult,
             failed := failed result @ failed subResult,
             errors := foldl (\<lambda>m (k, v). map_set k v m) (errors result) (errors subResult) \<rparr>"

definition empty_result :: TransferResult where
  "empty_result = \<lparr> success = True, transferred = [], failed = [], errors = [] \<rparr>"

text \<open>
  The directory transfers follow the directories they find, so the model counts the depth
  down as for \<open>removeRecursive\<close>: \<open>None\<close> is a run that would go deeper than \<open>fuel\<close>.
\<close>

fun uploadDirectory ::
    "nat \<Rightarrow> string \<Rightarrow> string \<Rightarrow> FileTransferOptions option \<Rightarrow> world
       \<Rightarrow> (string + TransferResult) option \<times> world"
  and uploadDirectory_loop ::
    "nat \<Rightarrow> string \<Rightarrow> string \<Rightarrow> FileTransferOptions option \<Rightarrow> Dirent list \<Rightarrow> TransferResult
       \<Rightarrow> world \<Rightarrow> TransferResult option \<times> world" where
  "uploadDirectory 0 localPath remotePath options w = (None, w)"
| "uploadDirectory (Suc fuel) localPath remotePath options w =
     (case mkdir remotePath (Some \<lparr> mk_recursive = Some True, mk_mode = None \<rparr>) w of
        (Inl e, w1) \<Rightarrow> (Some (Inl e), w1)
      | (Inr _, w1) \<Rightarrow>
          (case readdirSync localPath w1 of
             Inl e \<Rightarrow> (Some (Inl e), w1)
           | Inr ents \<Rightarrow>
               (case uploadDirectory_loop fuel localPath remotePath options ents empty_result w1 of
                  (None, w2) \<Rightarrow> (None, w2)
                | (Some result, w2) \<Rightarrow> (Some (Inr result), w2))))"
| "uploadDirectory_loop fuel localPath remotePath options [] result w = (Some result, w)"
| "uploadDirectory_loop fuel localPath remotePath options (entry # rest) result w =
     (let localEntryPath = path_join localPath (d_name entry);
          remoteEntryPath = remotePath @ ''/'' @ d_name entry
      in case (if d_isDirectory entry
               then (case uploadDirectory fuel localEntryPath remoteEntryPath options w of
                       (None, w1) \<Rightarrow> (None, w1)
                     | (Some (Inl message), w1) \<Rightarrow>
                         (Some (record_failure remoteEntryPath message result), w1)
                     | (Some (Inr subResult), w1) \<Rightarrow>
                         (Some (merge_result subResult result), w1))
               else (case uploadFile localEntryPath remoteEntryPath options w of
                       (Inl message, w1) \<Rightarrow>
                         (Some (record_failure remoteEntryPath message result), w1)
                     | (Inr _, w1) \<Rightarrow>
                         (Some (result\<lparr>transferred := transferred result @ [remoteEntryPath]\<rparr>),
                          w1))) of
           (None, w1) \<Rightarrow> (None, w1)
         | (Some result1, w1) \<Rightarrow>
             uploadDirectory_loop fuel localPath remotePath options rest result1 w1)"

fun downloadDirectory ::
    "nat \<Rightarrow> string \<Rightarrow> string \<Rightarrow> FileTransferOptions option \<Rightarrow> world
       \<Rightarrow> (string + TransferResult) option \<times> world"
  and downloadDirectory_loop ::
    "nat \<Rightarrow> string \<Rightarrow> string \<Rightarrow> FileTransferOptions option \<Rightarrow> FileInfo list \<Rightarrow> TransferResult
       \<Rightarrow> world \<Rightarrow> TransferResult option \<times> world" where
  "downloadDirectory 0 remotePath localPath options w = (None, w)"
| "downloadDirectory (Suc fuel) remotePath localPath options w =
     (case (if \<not> existsSync localPath w then mkdirSync localPath w else Inr w) of
        Inl e \<Rightarrow> (Some (Inl e), w)
      | Inr w1 \<Rightarrow>
          (case listDirectory remotePath w1 of
             (Inl e, w2) \<Rightarrow> (Some (Inl e), w2)
           | (Inr lst, w2) \<Rightarrow>
               (case downloadDirectory_loop fuel remotePath localPath options (entries lst)
                       empty_result w2 of
                  (None, w3) \<Rightarrow> (None, w3)
                | (Some result, w3) \<Rightarrow> (Some (Inr result), w3))))"
| "downloadDirectory_loop fuel remotePath localPath options [] result w = (Some result, w)"
| "downloadDirectory_loop fuel remotePath localPath options (entry # rest) result w =
     (let remoteEntryPath = remotePath @ ''/'' @ filename entry;
          localEntryPath = path_join localPath (filename entry)
      in case (if isDirectory entry
               then (case downloadDirectory fuel remoteEntryPath localEntryPath options w of
                       (None, w1) \<Rightarrow> (None, w1)
                     | (Some (Inl message), w1) \<Rightarrow>
                         (Some (record_failure localEntryPath message result), w1)
                     | (Some (Inr subResult), w1) \<Rightarrow>
                         (Some (merge_result subResult result), w1))
               else (case downloadFile remoteEntryPath localEntryPath options w of
                       (Inl message, w1) \<Rightarrow>
                         (Some (record_failure localEntryPath message result), w1)
                     | (Inr _, w1) \<Rightarrow>
                         (Some (result\<lparr>transferred := transferred result @ [localEntryPath]\<rparr>),
                          w1))) of
           (None, w1) \<Rightarrow> (None, w1)
         | (Some result1, w1) \<Rightarrow>
             downloadDirectory_loop fuel remotePath localPath options rest result1 w1)"

text \<open>The body of the loop of \<open>removeRecursive\<close> for one entry.\<close>

definition remove_entry :: "nat \<Rightarrow> string \<Rightarrow> FileInfo \<Rightarrow> world \<Rightarrow> (string + unit) option \<times> world" where
  "remove_entry fuel remotePath entry w =
     (if isDirectory entry then removeRecursive fuel (remotePath @ ''/'' @ filename entry) w
      else (case unlink (remotePath @ ''/'' @ filename entry) w of (r, w1) \<Rightarrow> (Some r, w1)))"

text \<open>
  The paths removed by a sequence of calls, in order, and among a sequence of paths the names
  of those that are entries of the directory \<open>d\<close>.
\<close>

fun removals :: "sftp_call list \<Rightarrow> string list" where
  "removals [] = []"
| "removals (Unlink q # cs) = q # removals cs"
| "removals (Rmdir q # cs) = q # removals cs"
| "removals (c # cs) = removals cs"

fun entries_among :: "string \<Rightarrow> string list \<Rightarrow> string list" where
  "entries_among d [] = []"
| "entries_among d (q # qs) =
     (case child_name d q of Some n \<Rightarrow> n # entries_among d qs | None \<Rightarrow> entries_among d qs)"

definition paths :: "world \<Rightarrow> string set" where
  "paths w = fst ` set (remote w)"

definition longest :: "(string \<times> Stats) list \<Rightarrow> nat" where
  "longest fs = foldr (\<lambda>(q, _) m. max (length q) m) fs 0"

text \<open>The server answers \<open>stat\<close> for a path: it has an entry for it and does not refuse it.\<close>

definition present :: "world \<Rightarrow> string \<Rightarrow> bool" where
  "present w q = (q \<notin> set (denied w) \<and> map_of (remote w) q \<noteq> None)"

text \<open>Two worlds with the same remote file system, the same refusals and the same handle.\<close>

definition same_server :: "world \<Rightarrow> world \<Rightarrow> bool" where
  "same_server w w' =
     (remote w' = remote w \<and> denied w' = denied w \<and> sftp (the_session w') = sftp (the_session w))"

text \<open>The \<open>catch\<close> of \<open>remove\<close>: an error is thrown again under the prefix of \<open>remove\<close>.\<close>

definition rethrown :: "(string + unit) \<times> world \<Rightarrow> (string + unit) option \<times> world" where
  "rethrown rw =
     (case rw of
        (Inl message, w) \<Rightarrow> (Some (Inl (''Failed to remove: '' @ message)), w)
      | (Inr u, w) \<Rightarrow> (Some (Inr u), w))"

text \<open>
  The spec's order of removal in a directory \<open>d\<close>: once an entry of \<open>d\<close> has been unlinked as
  a file, no entry of \<open>d\<close> is removed as a directory any more.
\<close>

definition removes_directory_in :: "string \<Rightarrow> sftp_call \<Rightarrow> bool" where
  "removes_directory_in d c = (case c of Rmdir q \<Rightarrow> child_name d q \<noteq> None | _ \<Rightarrow> False)"

fun subdirectories_before_files :: "string \<Rightarrow> sftp_call list \<Rightarrow> bool" where
  "subdirectories_before_files d [] = True"
| "subdirectories_before_files d (Unlink q # cs) =
     ((child_name d q = None \<or> \<not> list_ex (removes_directory_in d) cs)
      \<and> subdirectories_before_files d cs)"
| "subdirectories_before_files d (c # cs) = subdirectories_before_files d cs"





text \<open>
  Every way of cutting a path at a slash: the part before the slash and the part after it.
\<close>

fun cuts :: "string \<Rightarrow> string \<Rightarrow> (string \<times> string) list" where
  "cuts acc [] = []"
| "cuts acc (c # cs) = (if c = CHR ''/'' then [(acc, cs)] else []) @ cuts (acc @ [c]) cs"

text \<open>
  A remote path below the directory \<open>p\<close> is in order when every directory on the way from
  \<open>p\<close> down to it is an entry of the file system and a directory, and no name on the way is
  empty. A world is tidy below \<open>p\<close> when the session has its handle, the server refuses
  nothing at or below \<open>p\<close>, no path is listed twice and every path below \<open>p\<close> is in order.
\<close>

definition on_the_way :: "string \<Rightarrow> (string \<times> Stats) list \<Rightarrow> string \<times> string \<Rightarrow> bool" where
  "on_the_way p fs dr =
     (case dr of (d, r) \<Rightarrow>
        (d = p \<or> below p d) \<longrightarrow>
          r \<noteq> [] \<and> hd r \<noteq> CHR ''/''
          \<and> (case map_of fs d of None \<Rightarrow> False | Some st \<Rightarrow> is_dir_stats st))"

definition in_order :: "string \<Rightarrow> (string \<times> Stats) list \<Rightarrow> bool" where
  "in_order p fs = list_all (\<lambda>(q, _). list_all (on_the_way p fs) (cuts [] q)) fs"

definition tidy_below :: "string \<Rightarrow> world \<Rightarrow> bool" where
  "tidy_below p w =
     (sftp (the_session w) \<noteq> None
      \<and> list_all (\<lambda>q. q \<noteq> p \<and> \<not> below p q) (denied w)
      \<and> distinct (map fst (remote w))
      \<and> in_order p (remote w))"

text \<open>What is left of a file system when \<open>p\<close> and everything below it is gone.\<close>

definition pruned :: "string \<Rightarrow> (string \<times> Stats) list \<Rightarrow> (string \<times> Stats) list" where
  "pruned p fs = filter (\<lambda>(q, _). q \<noteq> p \<and> \<not> below p q) fs"

text \<open>What is left when the listed entries \<open>es\<close> of \<open>p\<close> and everything below them are gone.\<close>

definition without_entries ::
  "string \<Rightarrow> FileInfo list \<Rightarrow> (string \<times> Stats) list \<Rightarrow> (string \<times> Stats) list" where
  "without_entries p es fs =
     filter (\<lambda>(q, _). \<forall>e\<in>set es. q \<noteq> p @ ''/'' @ filename e \<and> \<not> below (p @ ''/'' @ filename e) q) fs"

section \<open>Sample values\<close>

definition demo_credentials :: SSHCredentials where
  "demo_credentials =
     \<lparr> host = ''build.example'', port = Some 22, username = ''deploy'', password = Some ''pw'',
       privateKey = None, privateKeyPassphrase = None, readyTimeout = None,
       connectionTimeout = None \<rparr>"

definition demo_session :: SSHSession where
  "demo_session =
     \<lparr> sid = ''s1'', credentials = demo_credentials, client = ''s1'', sftp = Some ''s1'',
       isConnected = True, lastActivity = 100, createdAt = 100, commandCount = 0 \<rparr>"


text \<open>Credentials that leave the port to its default, and two successful connection attempts.\<close>

definition default_port_credentials :: SSHCredentials where
  "default_port_credentials =
     \<lparr> host = ''build.example'', port = None, username = ''deploy'', password = Some ''pw'',
       privateKey = None, privateKeyPassphrase = None, readyTimeout = None,
       connectionTimeout = None \<rparr>"

definition first_attempt :: create_env where
  "first_attempt =
     \<lparr> uuid = ''id-1'', clock = 1000, key_file = (\<lambda>p. None), on_connect = Ready, on_sftp = None \<rparr>"

definition second_attempt :: create_env where
  "second_attempt =
     \<lparr> uuid = ''id-2'', clock = 2000, key_file = (\<lambda>p. None), on_connect = Ready, on_sftp = None \<rparr>"

definition rejected_attempt :: create_env where
  "rejected_attempt =
     \<lparr> uuid = ''id-3'', clock = 3000, key_file = (\<lambda>p. None),
       on_connect = ConnectError ''All configured authentication methods failed'',
       on_sftp = None \<rparr>"

definition after_first_attempt :: SessionManager where
  "after_first_attempt =
     \<lparr> sessions = [(''id-1'',
           \<lparr> sid = ''id-1'', credentials = default_port_credentials, client = ''id-1'',
             sftp = Some ''id-1'', isConnected = True, lastActivity = 1000, createdAt = 1000,
             commandCount = 0 \<rparr>)],
        sessionTimeout = 1800000, maxSessions = 100,
        calls = [ClientConnect ''id-1'' ''build.example'' 22 ''deploy'', ClientSftp ''id-1''] \<rparr>"

definition dir_stats :: Stats where
  "dir_stats = new_stats 16877 0"

definition file_stats :: Stats where
  "file_stats = new_stats 33188 0"

definition app_tree :: "(string \<times> Stats) list" where
  "app_tree =
     [(''/srv'', dir_stats),
      (''/srv/app'', dir_stats),
      (''/srv/app/readme'', file_stats),
      (''/srv/app/cache'', dir_stats),
      (''/srv/app/cache/blob'', file_stats),
      (''/srv/app/empty'', dir_stats)]"

definition app_world :: world where
  "app_world =
     \<lparr> remote = app_tree, denied = [], localfs = [], date_now = 500,
       the_session = demo_session, sftp_calls = [] \<rparr>"

definition recursively :: "mkdir_options option" where
  "recursively = Some \<lparr> mk_recursive = Some True, mk_mode = None \<rparr>"

definition all_of_it :: "remove_options option" where
  "all_of_it = Some \<lparr> rm_recursive = Some True \<rparr>"

section \<open>Properties of the file information\<close>

lemma type_constants_distinct:
  "S_IFDIR \<noteq> S_IFREG" "S_IFDIR \<noteq> S_IFLNK" "S_IFREG \<noteq> S_IFLNK"
  by (simp_all add: S_IFDIR_def S_IFREG_def S_IFLNK_def)

text \<open>
  C9: on the same mode bitmask, the stat-result path and the directory-listing path give
  the same type classification; and when the masked type field is one of the three type
  constants, exactly one of the three classifications holds.
\<close>

theorem classification_same_on_both_paths:
  "classification (statsToFileInfo fa (stats\<lparr>s_mode := m\<rparr>) la) =
     classification (attrsToFileInfo fb (attrs\<lparr>a_mode := Some m\<rparr>) lb)
   \<and> (m AND S_IFMT \<in> {S_IFDIR, S_IFREG, S_IFLNK} \<longrightarrow>
        count_true (classification (attrsToFileInfo fb (attrs\<lparr>a_mode := Some m\<rparr>) lb)) = 1
      \<and> count_true (classification (statsToFileInfo fa (stats\<lparr>s_mode := m\<rparr>) la)) = 1)"
  using type_constants_distinct
  by (auto simp: classification_def statsToFileInfo_def attrsToFileInfo_def nullish_def
      Stats_isDirectory_def Stats_isFile_def Stats_isSymbolicLink_def
      isDirectoryMode_def isFileMode_def isSymlinkMode_def count_true_def)

theorem classification_same_on_both_paths_witness:
  "classification (statsToFileInfo ''etc''
       \<lparr>s_mode = 16877, s_uid = 0, s_gid = 0, s_size = 4096, s_atime = 1, s_mtime = 2\<rparr> None) =
     classification (attrsToFileInfo ''etc''
       \<lparr>a_mode = Some 16877, a_uid = None, a_gid = None, a_size = None, a_atime = None,
        a_mtime = None\<rparr> (Some ''drwxr-xr-x etc''))
   \<and> (16877 :: 32 word) AND S_IFMT = S_IFDIR
   \<and> count_true (classification (attrsToFileInfo ''etc''
       \<lparr>a_mode = Some 16877, a_uid = None, a_gid = None, a_size = None, a_atime = None,
        a_mtime = None\<rparr> (Some ''drwxr-xr-x etc''))) = 1"
proof -
  have m: "(16877 :: 32 word) AND S_IFMT = S_IFDIR"
    by (simp add: S_IFMT_def S_IFDIR_def)
  note t = classification_same_on_both_paths [where m = 16877 and fa = "''etc''"
      and fb = "''etc''" and la = None and lb = "Some ''drwxr-xr-x etc''"
      and stats = "\<lparr>s_mode = 16877, s_uid = 0, s_gid = 0, s_size = 4096, s_atime = 1,
        s_mtime = 2\<rparr>"
      and attrs = "\<lparr>a_mode = Some 16877, a_uid = None, a_gid = None, a_size = None,
        a_atime = None, a_mtime = None\<rparr>"]
  from t m show ?thesis by simp
qed

section \<open>Properties of the session registry\<close>

lemmas registry_defs = createSession_def findExistingSession_def same_target_def connectClient_def
  initSFTP_def has_key_def truthy_def number_or_def new_SessionManager_def Let_def


lemma update_first_keys: "map fst (update_first P f kvs) = map fst kvs"
  by (induction kvs) auto

text \<open>
  C1: two calls with the same host and user name, the port left to its default, the first
  session still connected. The stored credentials keep the port \<open>undefined\<close>, the lookup
  compares it with \<open>22\<close>, so the second call finds nothing to reuse: it opens a second
  connection and returns a second identifier.
\<close>

theorem default_port_opens_second_connection:
  "createSession first_attempt default_port_credentials (new_SessionManager None None) =
     (Inr ''id-1'', after_first_attempt)
   \<and> isConnected (snd (hd (sessions after_first_attempt)))
   \<and> fst (createSession second_attempt default_port_credentials after_first_attempt) = Inr ''id-2''
   \<and> map fst (sessions (snd (createSession second_attempt default_port_credentials
          after_first_attempt))) = [''id-1'', ''id-2'']
   \<and> calls (snd (createSession second_attempt default_port_credentials after_first_attempt))
       = [ClientConnect ''id-1'' ''build.example'' 22 ''deploy'', ClientSftp ''id-1'',
          ClientConnect ''id-2'' ''build.example'' 22 ''deploy'', ClientSftp ''id-2'']"
proof -
  have 1: "createSession first_attempt default_port_credentials (new_SessionManager None None) =
     (Inr ''id-1'', after_first_attempt)"
    by (simp add: registry_defs default_port_credentials_def first_attempt_def
        after_first_attempt_def)
  have 2: "createSession second_attempt default_port_credentials after_first_attempt =
     (Inr ''id-2'',
      after_first_attempt\<lparr>sessions := sessions after_first_attempt @ [(''id-2'',
           \<lparr> sid = ''id-2'', credentials = default_port_credentials, client = ''id-2'',
             sftp = Some ''id-2'', isConnected = True, lastActivity = 2000, createdAt = 2000,
             commandCount = 0 \<rparr>)],
        calls := calls after_first_attempt
          @ [ClientConnect ''id-2'' ''build.example'' 22 ''deploy'', ClientSftp ''id-2'']\<rparr>)"
    by (simp add: registry_defs default_port_credentials_def second_attempt_def
        after_first_attempt_def)
  show ?thesis
    unfolding 1 2 by (simp add: after_first_attempt_def)
qed

lemma createSession_error_keeps_sessions:
  "fst (createSession env creds m) = Inl e \<Longrightarrow> sessions (snd (createSession env creds m)) = sessions m"
  by (auto simp: createSession_def Let_def split: if_splits option.splits prod.splits sum.splits)

text \<open>
  C7: no failing call of \<open>createSession\<close> changes the session map; and when the call gets
  as far as connecting (nothing to reuse, ceiling not reached) and authentication or the
  opening of the file subsystem fails, the error is passed on with the prefix of
  \<open>createSession\<close>, and the last call on the new handle is \<open>end\<close>.
\<close>

theorem createSession_failure_releases_handle:
  "(fst (createSession env creds m) = Inl e \<longrightarrow>
      sessions (snd (createSession env creds m)) = sessions m)
 \<and> (\<not> (case findExistingSession m creds of None \<Rightarrow> False | Some s \<Rightarrow> isConnected s)
    \<and> length (sessions m) < maxSessions m
    \<and> (fst (connectClient env (uuid env) creds) = Inl e
        \<or> fst (connectClient env (uuid env) creds) = Inr () \<and> on_sftp env = Some e)
    \<longrightarrow> fst (createSession env creds m) = Inl (''Failed to create SSH session: '' @ e)
      \<and> sessions (snd (createSession env creds m)) = sessions m
      \<and> prefix (calls m) (calls (snd (createSession env creds m)))
      \<and> last (calls (snd (createSession env creds m))) = ClientEnd (uuid env))"
proof (intro conjI impI)
  assume "fst (createSession env creds m) = Inl e"
  then show "sessions (snd (createSession env creds m)) = sessions m"
    by (rule createSession_error_keeps_sessions)
next
  assume a: "\<not> (case findExistingSession m creds of None \<Rightarrow> False | Some s \<Rightarrow> isConnected s)
    \<and> length (sessions m) < maxSessions m
    \<and> (fst (connectClient env (uuid env) creds) = Inl e
        \<or> fst (connectClient env (uuid env) creds) = Inr () \<and> on_sftp env = Some e)"
  then show r: "fst (createSession env creds m) = Inl (''Failed to create SSH session: '' @ e)"
    by (auto simp: createSession_def Let_def initSFTP_def split: prod.splits sum.splits option.splits)
  then show "sessions (snd (createSession env creds m)) = sessions m"
    by (rule createSession_error_keeps_sessions)
  from a show "prefix (calls m) (calls (snd (createSession env creds m)))"
    by (auto simp: createSession_def Let_def initSFTP_def split: prod.splits sum.splits option.splits)
  from a show "last (calls (snd (createSession env creds m))) = ClientEnd (uuid env)"
    by (auto simp: createSession_def Let_def initSFTP_def split: prod.splits sum.splits option.splits)
qed

theorem createSession_failure_releases_handle_witness:
  "fst (createSession rejected_attempt default_port_credentials (new_SessionManager None (Some 5)))
     = Inl ''Failed to create SSH session: All configured authentication methods failed''
   \<and> sessions (snd (createSession rejected_attempt default_port_credentials
        (new_SessionManager None (Some 5)))) = []
   \<and> last (calls (snd (createSession rejected_attempt default_port_credentials
        (new_SessionManager None (Some 5))))) = ClientEnd ''id-3''"
proof -
  let ?m = "new_SessionManager None (Some 5)"
  have h: "\<not> (case findExistingSession ?m default_port_credentials of None \<Rightarrow> False | Some s \<Rightarrow> isConnected s)
    \<and> length (sessions ?m) < maxSessions ?m
    \<and> (fst (connectClient rejected_attempt (uuid rejected_attempt) default_port_credentials)
          = Inl ''All configured authentication methods failed''
        \<or> fst (connectClient rejected_attempt (uuid rejected_attempt) default_port_credentials) = Inr ()
          \<and> on_sftp rejected_attempt = Some ''All configured authentication methods failed'')"
    by (simp add: registry_defs rejected_attempt_def default_port_credentials_def)
  have s: "sessions ?m = []" "uuid rejected_attempt = ''id-3''"
    by (simp_all add: new_SessionManager_def rejected_attempt_def)
  note t = createSession_failure_releases_handle [of rejected_attempt default_port_credentials ?m
      "''All configured authentication methods failed''"]
  from t h have "fst (createSession rejected_attempt default_port_credentials ?m)
       = Inl (''Failed to create SSH session: '' @ ''All configured authentication methods failed'')
     \<and> sessions (snd (createSession rejected_attempt default_port_credentials ?m)) = sessions ?m
     \<and> last (calls (snd (createSession rejected_attempt default_port_credentials ?m)))
         = ClientEnd (uuid rejected_attempt)"
    by blast
  with s show ?thesis by simp
qed

section \<open>Properties of the command execution engine\<close>

lemmas settle_defs = reject_def resolve_def clearTimeout_def count_command_def

lemma executeCommand_on_pending:
  "settled (executeCommand_on t now ev st) = None \<Longrightarrow>
     settled st = None \<and> session (executeCommand_on t now ev st) = session st"
  by (induction t now ev st rule: executeCommand_on.induct)
     (auto simp: settle_defs Let_def split: if_splits)

lemma executeCommand_on_rejects:
  "settled st = None \<Longrightarrow> settled (executeCommand_on t now ev st) = Some (Inl e) \<Longrightarrow>
     session (executeCommand_on t now ev st) = session st"
  by (induction t now ev st rule: executeCommand_on.induct)
     (auto simp: settle_defs Let_def split: if_splits)

lemma executeCommand_pending:
  "settled (executeCommand s t now evs) = None \<Longrightarrow> session (executeCommand s t now evs) = s"
proof (induction evs rule: rev_induct)
  case Nil
  then show ?case by (simp add: executeCommand_def initial_state_def)
next
  case (snoc ev evs)
  then show ?case
    using executeCommand_on_pending [of "timeout_of t" now ev "executeCommand s t now evs"]
    by (simp add: executeCommand_def)
qed

lemma executeWithInput_on_pending:
  "settled (executeWithInput_on inp t now ev st) = None \<Longrightarrow>
     settled st = None \<and> session (executeWithInput_on inp t now ev st) = session st"
  by (induction inp t now ev st rule: executeWithInput_on.induct)
     (auto simp: settle_defs Let_def split: if_splits)

lemma executeWithInput_on_rejects:
  "settled st = None \<Longrightarrow> settled (executeWithInput_on inp t now ev st) = Some (Inl e) \<Longrightarrow>
     session (executeWithInput_on inp t now ev st) = session st"
  by (induction inp t now ev st rule: executeWithInput_on.induct)
     (auto simp: settle_defs Let_def split: if_splits)

lemma executeWithInput_pending:
  "settled (executeWithInput s inp t now evs) = None \<Longrightarrow>
     session (executeWithInput s inp t now evs) = s"
proof (induction evs rule: rev_induct)
  case Nil
  then show ?case by (simp add: executeWithInput_def initial_state_def)
next
  case (snoc ev evs)
  then show ?case
    using executeWithInput_on_pending [of inp "timeout_of t" now ev "executeWithInput s inp t now evs"]
    by (simp add: executeWithInput_def)
qed

text \<open>
  C10, as amended: at the moment \<open>executeCommand\<close> or \<open>executeWithInput\<close> fails (the
  pending promise is rejected by the timer, the \<open>exec\<close> callback or a stream error), the
  session is exactly as it was before the call. The close handler, however, does not look at
  the promise: whenever it runs on an open stream it increments \<open>commandCount\<close> and sets
  \<open>lastActivity\<close>, also after the call has failed.
\<close>

theorem session_unchanged_at_failure:
  "(settled (executeCommand s t now evs) = None \<and>
    settled (executeCommand s t now (evs @ [ev])) = Some (Inl e)
      \<longrightarrow> session (executeCommand s t now (evs @ [ev])) = s)
 \<and> (settled (executeWithInput s inp t now evs) = None \<and>
    settled (executeWithInput s inp t now (evs @ [ev])) = Some (Inl e)
      \<longrightarrow> session (executeWithInput s inp t now (evs @ [ev])) = s)
 \<and> (opened st \<longrightarrow>
      session (executeCommand_on n now (Close code sig) st) =
        (session st)\<lparr>commandCount := commandCount (session st) + 1, lastActivity := now\<rparr>
    \<and> session (executeWithInput_on inp n now (Close code sig) st) =
        (session st)\<lparr>commandCount := commandCount (session st) + 1, lastActivity := now\<rparr>)"
proof (intro conjI impI)
  assume a: "settled (executeCommand s t now evs) = None \<and>
    settled (executeCommand s t now (evs @ [ev])) = Some (Inl e)"
  then have "session (executeCommand s t now evs) = s"
    by (simp add: executeCommand_pending)
  with a executeCommand_on_rejects [of "executeCommand s t now evs" "timeout_of t" now ev e]
  show "session (executeCommand s t now (evs @ [ev])) = s"
    by (simp add: executeCommand_def)
next
  assume a: "settled (executeWithInput s inp t now evs) = None \<and>
    settled (executeWithInput s inp t now (evs @ [ev])) = Some (Inl e)"
  then have "session (executeWithInput s inp t now evs) = s"
    by (simp add: executeWithInput_pending)
  with a executeWithInput_on_rejects [of "executeWithInput s inp t now evs" inp "timeout_of t" now ev e]
  show "session (executeWithInput s inp t now (evs @ [ev])) = s"
    by (simp add: executeWithInput_def)
next
  assume "opened st"
  then show "session (executeCommand_on n now (Close code sig) st) =
        (session st)\<lparr>commandCount := commandCount (session st) + 1, lastActivity := now\<rparr>"
    by (auto simp: settle_defs Let_def)
next
  assume "opened st"
  then show "session (executeWithInput_on inp n now (Close code sig) st) =
        (session st)\<lparr>commandCount := commandCount (session st) + 1, lastActivity := now\<rparr>"
    by (auto simp: settle_defs Let_def)
qed

lemmas run_defs = executeCommand_def executeWithInput_def executeSudoCommand_def
  initial_state_def timeout_of_def settle_defs Let_def show_nat.simps

text \<open>
  C10, as stated, fails: when the command ends after the timer has fired, or the stream
  closes after its error, the call has failed and the close handler still counts the
  command and refreshes the activity time.
\<close>

theorem close_after_timeout_counterexample:
  "settled (executeCommand demo_session None 200 [ExecCallback None, TimerFires, Close (Some 0) None])
     = Some (Inl ''Command execution timeout after 30000ms'')
   \<and> commandCount (session (executeCommand demo_session None 200
        [ExecCallback None, TimerFires, Close (Some 0) None])) = 1
   \<and> lastActivity (session (executeCommand demo_session None 200
        [ExecCallback None, TimerFires, Close (Some 0) None])) = 200
   \<and> commandCount demo_session = 0 \<and> lastActivity demo_session = 100
   \<and> settled (executeWithInput demo_session ''y'' None 200
        [ExecCallback None, StreamError ''read ECONNRESET'', Close None None])
     = Some (Inl ''read ECONNRESET'')
   \<and> commandCount (session (executeWithInput demo_session ''y'' None 200
        [ExecCallback None, StreamError ''read ECONNRESET'', Close None None])) = 1"
  by (simp add: run_defs demo_session_def)

theorem session_unchanged_at_failure_witness:
  "settled (executeCommand demo_session (Some 500) 200 [ExecCallback None, Data ''partial'']) = None
   \<and> settled (executeCommand demo_session (Some 500) 200 ([ExecCallback None, Data ''partial''] @ [TimerFires]))
       = Some (Inl ''Command execution timeout after 500ms'')
   \<and> session (executeCommand demo_session (Some 500) 200 ([ExecCallback None, Data ''partial''] @ [TimerFires]))
       = demo_session
   \<and> settled (executeWithInput demo_session ''y'' None 200 [ExecCallback None]) = None
   \<and> settled (executeWithInput demo_session ''y'' None 200 ([ExecCallback None] @ [StreamError ''reset'']))
       = Some (Inl ''reset'')
   \<and> session (executeWithInput demo_session ''y'' None 200 ([ExecCallback None] @ [StreamError ''reset'']))
       = demo_session
   \<and> opened (executeCommand demo_session None 200 [ExecCallback None, TimerFires])
   \<and> commandCount (session (executeCommand_on 30000 200 (Close (Some 0) None)
         (executeCommand demo_session None 200 [ExecCallback None, TimerFires]))) = 1"
proof -
  have p1: "settled (executeCommand demo_session (Some 500) 200 [ExecCallback None, Data ''partial'']) = None"
    by (simp add: run_defs)
  have p2: "settled (executeCommand demo_session (Some 500) 200 ([ExecCallback None, Data ''partial''] @ [TimerFires]))
       = Some (Inl ''Command execution timeout after 500ms'')"
    by (simp add: run_defs)
  have q1: "settled (executeWithInput demo_session ''y'' None 200 [ExecCallback None]) = None"
    by (simp add: run_defs)
  have q2: "settled (executeWithInput demo_session ''y'' None 200 ([ExecCallback None] @ [StreamError ''reset'']))
       = Some (Inl ''reset'')"
    by (simp add: run_defs)
  have o: "opened (executeCommand demo_session None 200 [ExecCallback None, TimerFires])"
    by (simp add: run_defs)
  have c0: "commandCount (session (executeCommand demo_session None 200 [ExecCallback None, TimerFires])) = 0"
    by (simp add: run_defs demo_session_def)
  note t = session_unchanged_at_failure [where s = demo_session and t = "Some 500" and now = 200
      and evs = "[ExecCallback None, Data ''partial'']" and ev = TimerFires
      and e = "''Command execution timeout after 500ms''"]
  note u = session_unchanged_at_failure [where s = demo_session and t = None and now = 200
      and inp = "''y''" and evs = "[ExecCallback None]" and ev = "StreamError ''reset''"
      and e = "''reset''"]
  note v = session_unchanged_at_failure [where now = 200 and n = 30000 and code = "Some 0"
      and sig = None and st = "executeCommand demo_session None 200 [ExecCallback None, TimerFires]"]
  from p1 p2 t have r1: "session (executeCommand demo_session (Some 500) 200 ([ExecCallback None, Data ''partial''] @ [TimerFires]))
       = demo_session" by blast
  from q1 q2 u have r2: "session (executeWithInput demo_session ''y'' None 200 ([ExecCallback None] @ [StreamError ''reset'']))
       = demo_session" by blast
  from o v c0 have r3: "commandCount (session (executeCommand_on 30000 200 (Close (Some 0) None)
         (executeCommand demo_session None 200 [ExecCallback None, TimerFires]))) = 1"
    by simp
  from p1 p2 q1 q2 o r1 r2 r3 show ?thesis by blast
qed

lemma str_includes_map:
  "str_includes chunk pat \<Longrightarrow> str_includes (map f chunk) (map f pat)"
proof (induction chunk)
  case Nil
  then show ?case by simp
next
  case (Cons c cs)
  then show ?case
    using map_mono_prefix [of pat "c # cs" f] by auto
qed























text \<open>
  C4, as amended: with a non-empty password, a chunk arriving before the password has been
  sent and containing \<open>password\<close> or \<open>Password\<close> in exactly one of these two spellings makes
  the engine write the password and a newline to the stream, and is left out of the captured
  output; every other chunk (one without these spellings, or one arriving after the password
  has been sent) is appended to the captured output and nothing is written. The two spellings
  are instances of the match that ignores case.
\<close>

theorem sudo_prompt_detection:
  assumes "pw \<noteq> []"
  shows "(\<not> passwordSent st \<and> (str_includes chunk ''password'' \<or> str_includes chunk ''Password'') \<longrightarrow>
            written (sudo_on_data (Some pw) chunk st) = written st @ [Write (pw @ [CHR 0x0A])]
          \<and> out_buf (sudo_on_data (Some pw) chunk st) = out_buf st
          \<and> passwordSent (sudo_on_data (Some pw) chunk st))
       \<and> (passwordSent st \<or> \<not> (str_includes chunk ''password'' \<or> str_includes chunk ''Password'') \<longrightarrow>
            written (sudo_on_data (Some pw) chunk st) = written st
          \<and> out_buf (sudo_on_data (Some pw) chunk st) = out_buf st @ chunk
          \<and> passwordSent (sudo_on_data (Some pw) chunk st) = passwordSent st)
       \<and> (str_includes chunk ''password'' \<or> str_includes chunk ''Password'' \<longrightarrow>
            includes_ignoring_case chunk ''password'')"
proof -
  have "map lower_char ''Password'' = ''password''" "map lower_char ''password'' = ''password''"
    by (simp_all add: lower_char_def)
  then have "str_includes chunk ''password'' \<or> str_includes chunk ''Password'' \<Longrightarrow>
      includes_ignoring_case chunk ''password''"
    unfolding includes_ignoring_case_def
    using str_includes_map [of chunk "''password''" lower_char]
      str_includes_map [of chunk "''Password''" lower_char]
    by auto
  with assms show ?thesis
    by (auto simp: sudo_on_data_def truthy_def or_else_def)
qed

text \<open>
  C4, as stated, fails: a prompt in capitals matches when case is ignored, but the engine
  does not answer it and captures it as output.
\<close>

theorem uppercase_prompt_counterexample:
  "includes_ignoring_case ''PASSWORD: '' ''password''
   \<and> \<not> passwordSent (initial_state demo_session)
   \<and> written (sudo_on_data (Some ''s3cret'') ''PASSWORD: '' (initial_state demo_session)) = []
   \<and> out_buf (sudo_on_data (Some ''s3cret'') ''PASSWORD: '' (initial_state demo_session)) = ''PASSWORD: ''"
  by (simp add: includes_ignoring_case_def lower_char_def sudo_on_data_def initial_state_def truthy_def)

theorem sudo_prompt_detection_witness:
  "written (sudo_on_data (Some ''s3cret'') ''[sudo] password for bob: '' (initial_state demo_session))
     = [Write (''s3cret'' @ [CHR 0x0A])]
   \<and> out_buf (sudo_on_data (Some ''s3cret'') ''[sudo] password for bob: '' (initial_state demo_session)) = []
   \<and> out_buf (sudo_on_data (Some ''s3cret'') ''total 0'' (initial_state demo_session)) = ''total 0''"
proof -
  have ne: "''s3cret'' \<noteq> []" by simp
  have a: "\<not> passwordSent (initial_state demo_session)" "written (initial_state demo_session) = []"
    "out_buf (initial_state demo_session) = []"
    by (simp_all add: initial_state_def)
  have b: "str_includes ''[sudo] password for bob: '' ''password''" by simp
  have c: "\<not> (str_includes ''total 0'' ''password'' \<or> str_includes ''total 0'' ''Password'')" by simp
  from sudo_prompt_detection [OF ne, of "initial_state demo_session" "''[sudo] password for bob: ''"] a b
    sudo_prompt_detection [OF ne, of "initial_state demo_session" "''total 0''"] c
  show ?thesis by simp
qed

section \<open>Properties of the file operation engine\<close>

subsection \<open>remove\<close>

lemma removeRecursive_loop_Cons:
  "removeRecursive_loop fuel p (e # es) w =
     (case remove_entry fuel p e w of
        (Some (Inr _), w1) \<Rightarrow> removeRecursive_loop fuel p es w1
      | (r, w1) \<Rightarrow> (r, w1))"
  by (simp add: remove_entry_def Let_def)

lemma removeRecursive_Suc:
  "removeRecursive (Suc fuel) p w =
     (case listDirectory p w of
        (Inl e, w1) \<Rightarrow> (Some (Inl e), w1)
      | (Inr lst, w1) \<Rightarrow>
          (case removeRecursive_loop fuel p (entries lst) w1 of
             (Some (Inr _), w2) \<Rightarrow> (case rmdir p w2 of (r, w3) \<Rightarrow> (Some r, w3))
           | (r, w2) \<Rightarrow> (r, w2)))"
  by simp

lemma removeRecursive_induct [case_names zero rec nil cons]:
  assumes zero: "\<And>p w. P 0 p w"
    and rec: "\<And>n p w. (\<And>lst w1. listDirectory p w = (Inr lst, w1) \<Longrightarrow> Q n p (entries lst) w1)
                \<Longrightarrow> P (Suc n) p w"
    and nil: "\<And>n p w. Q n p [] w"
    and cons: "\<And>n p e es w.
                (isDirectory e \<Longrightarrow> P n (p @ ''/'' @ filename e) w) \<Longrightarrow>
                (\<And>w1. remove_entry n p e w = (Some (Inr ()), w1) \<Longrightarrow> Q n p es w1) \<Longrightarrow>
                Q n p (e # es) w"
  shows "P n p w" and "Q n p es w"
proof (induction n p w and n p es w rule: removeRecursive_removeRecursive_loop.induct)
  case (1 remotePath w)
  show ?case by (rule zero)
next
  case (2 fuel remotePath w)
  show ?case
  proof (rule rec)
    fix lst w1
    assume "listDirectory remotePath w = (Inr lst, w1)"
    from 2 [OF this [symmetric] refl] show "Q fuel remotePath (entries lst) w1" .
  qed
next
  case (3 fuel remotePath w)
  show ?case by (rule nil)
next
  case (4 fuel remotePath entry rest w)
  show ?case
  proof (rule cons)
    assume "isDirectory entry"
    from 4(1) [OF refl this] show "P fuel (remotePath @ ''/'' @ filename entry) w" .
  next
    fix w1
    assume "remove_entry fuel remotePath entry w = (Some (Inr ()), w1)"
    then have "(Some (Inr ()), w1) =
      (if isDirectory entry then removeRecursive fuel (remotePath @ ''/'' @ filename entry) w
       else (case unlink (remotePath @ ''/'' @ filename entry) w of (r, w1) \<Rightarrow> (Some r, w1)))"
      by (simp add: remove_entry_def)
    from 4(2) [OF refl this refl refl] show "Q fuel remotePath rest w1" .
  qed
qed

declare removeRecursive.simps(2) [simp del] removeRecursive_loop.simps(2) [simp del]

lemma longest_bound: "(q, st) \<in> set fs \<Longrightarrow> length q \<le> longest fs"
  by (induction fs) (auto simp: longest_def)

lemma remote_called [simp]: "remote (called c w) = remote w"
  by (simp add: called_def)

lemma remote_touch [simp]: "remote (touch w) = remote w"
  by (simp add: touch_def)

lemma stat_remote: "remote (snd (stat p w)) = remote w"
  by (auto simp: stat_def split: sum.splits)

lemma listDirectory_remote: "listDirectory p w = (r, w1) \<Longrightarrow> remote w1 = remote w"
  by (auto simp: listDirectory_def Let_def split: sum.splits)

lemma unlink_paths: "unlink p w = (r, w1) \<Longrightarrow> paths w1 \<subseteq> paths w"
  by (auto simp: unlink_def srv_unlink_def paths_def split: sum.splits option.splits if_splits)

lemma rmdir_paths: "rmdir p w = (r, w1) \<Longrightarrow> paths w1 \<subseteq> paths w"
  by (auto simp: rmdir_def srv_rmdir_def paths_def split: sum.splits option.splits if_splits)

lemma removeRecursive_paths:
  "paths (snd (removeRecursive fuel p w)) \<subseteq> paths w"
  "paths (snd (removeRecursive_loop fuel p es w)) \<subseteq> paths w"
proof (induction fuel p w and fuel p es w rule: removeRecursive_induct)
  case (zero p w)
  show ?case by simp
next
  case (rec n p w)
  obtain r w1 where l: "listDirectory p w = (r, w1)" by (cases "listDirectory p w")
  then have w1: "paths w1 = paths w" by (simp add: paths_def listDirectory_remote)
  show ?case
  proof (cases r)
    case (Inl e)
    with l w1 show ?thesis by (simp add: removeRecursive_Suc)
  next
    case (Inr lst)
    obtain r2 w2 where l2: "removeRecursive_loop n p (entries lst) w1 = (r2, w2)"
      by (cases "removeRecursive_loop n p (entries lst) w1")
    with rec [of lst w1] l Inr w1 have w2: "paths w2 \<subseteq> paths w" by simp
    obtain r3 w3 where l3: "rmdir p w2 = (r3, w3)" by (cases "rmdir p w2")
    with rmdir_paths w2 have "paths w3 \<subseteq> paths w" by blast
    with l Inr l2 l3 w2 show ?thesis
      by (auto simp: removeRecursive_Suc split: option.splits sum.splits)
  qed
next
  case (nil n p w)
  show ?case by simp
next
  case (cons n p e es w)
  obtain r1 w1 where f: "remove_entry n p e w = (r1, w1)" by (cases "remove_entry n p e w")
  have s1: "paths w1 \<subseteq> paths w"
  proof (cases "isDirectory e")
    case True
    with cons(1) f show ?thesis by (simp add: remove_entry_def)
  next
    case False
    with f unlink_paths [of "p @ ''/'' @ filename e" w] show ?thesis
      by (auto simp: remove_entry_def split: prod.splits)
  qed
  show ?case
  proof (cases "r1 = Some (Inr ())")
    case True
    with cons(2) [of w1] f s1 show ?thesis by (auto simp: removeRecursive_loop_Cons)
  next
    case False
    with s1 f show ?thesis
      by (auto simp: removeRecursive_loop_Cons split: option.splits sum.splits)
  qed
qed


lemma strip_prefix_Some: "strip_prefix a s = Some r \<longleftrightarrow> s = a @ r"
  by (induction a s rule: strip_prefix.induct) auto

lemma strip_prefix_snoc [simp]: "strip_prefix (a @ [c]) (a @ c # r) = Some r"
  by (simp add: strip_prefix_Some)

lemma child_name_Some:
  "child_name d q = Some n \<longleftrightarrow> q = d @ ''/'' @ n \<and> n \<noteq> [] \<and> CHR ''/'' \<notin> set n"
  by (cases "strip_prefix (d @ ''/'') q") (auto simp: child_name_def strip_prefix_Some)

lemma filename_attrsToFileInfo [simp]: "filename (attrsToFileInfo n a l) = n"
  by (simp add: attrsToFileInfo_def Let_def)

lemma listing_Nil [simp]: "listing d [] = []"
  by (simp add: listing_def)

lemma listing_Cons [simp]:
  "listing d ((q, st) # fs) =
     (case child_name d q of
        None \<Rightarrow> []
      | Some n \<Rightarrow> [\<lparr> fe_filename = n, fe_longname = n, fe_attrs = attrs_of st \<rparr>]) @ listing d fs"
  by (simp add: listing_def)

lemma listing_entries:
  "e \<in> set (listing d fs) \<Longrightarrow>
     d @ ''/'' @ fe_filename e \<in> fst ` set fs \<and> fe_filename e \<noteq> [] \<and> CHR ''/'' \<notin> set (fe_filename e)"
proof (induction fs)
  case Nil
  then show ?case by simp
next
  case (Cons x fs)
  obtain q st where x: "x = (q, st)" by (cases x)
  show ?case
  proof (cases "e \<in> set (listing d fs)")
    case True
    with Cons.IH show ?thesis by auto
  next
    case False
    with Cons.prems x obtain n where "child_name d q = Some n" "fe_filename e = n"
      by (cases "child_name d q") auto
    with x show ?thesis by (auto simp: child_name_Some)
  qed
qed

lemma listDirectory_entries:
  assumes "listDirectory p w = (Inr lst, w1)" and "e \<in> set (entries lst)"
  shows "p @ ''/'' @ filename e \<in> paths w \<and> filename e \<noteq> [] \<and> CHR ''/'' \<notin> set (filename e)"
proof -
  from assms obtain fe where "fe \<in> set (listing p (remote w))" "filename e = fe_filename fe"
    by (auto simp: listDirectory_def srv_readdir_def Let_def
        split: sum.splits option.splits if_splits)
  with listing_entries [of fe p "remote w"] show ?thesis by (simp add: paths_def)
qed

lemma remove_entry_paths: "remove_entry n p e w = (r, w1) \<Longrightarrow> paths w1 \<subseteq> paths w"
  using removeRecursive_paths(1) [of n "p @ ''/'' @ filename e" w]
    unlink_paths [of "p @ ''/'' @ filename e" w]
  by (auto simp: remove_entry_def split: if_splits prod.splits)

lemma fuel_enough:
  "\<forall>q\<in>paths w. length q \<le> L \<Longrightarrow> L < n + length p \<Longrightarrow> 0 < n \<Longrightarrow>
     fst (removeRecursive n p w) \<noteq> None"
  "\<forall>q\<in>paths w. length q \<le> L \<Longrightarrow>
     \<forall>e\<in>set es. isDirectory e \<longrightarrow> L < n + length (p @ ''/'' @ filename e) \<and> 0 < n \<Longrightarrow>
     fst (removeRecursive_loop n p es w) \<noteq> None"
proof (induction n p w and n p es w rule: removeRecursive_induct)
  case (zero p w)
  then show ?case by simp
next
  case (rec n p w)
  obtain r w1 where l: "listDirectory p w = (r, w1)" by (cases "listDirectory p w")
  show ?case
  proof (cases r)
    case (Inl e)
    with l show ?thesis by (simp add: removeRecursive_Suc)
  next
    case (Inr lst)
    have w1: "paths w1 = paths w" using l by (simp add: paths_def listDirectory_remote)
    have "\<forall>e\<in>set (entries lst). isDirectory e \<longrightarrow> L < n + length (p @ ''/'' @ filename e) \<and> 0 < n"
    proof (intro ballI impI)
      fix e assume e: "e \<in> set (entries lst)"
      from listDirectory_entries [OF l [unfolded Inr] e] rec.prems(1)
      have "length (p @ ''/'' @ filename e) \<le> L" "filename e \<noteq> []" by auto
      moreover have "length (p @ ''/'' @ filename e) = length p + 1 + length (filename e)" by simp
      moreover from \<open>filename e \<noteq> []\<close> have "0 < length (filename e)" by simp
      ultimately show "L < n + length (p @ ''/'' @ filename e) \<and> 0 < n"
        using rec.prems(2) by linarith
    qed
    with rec.IH [OF l [unfolded Inr]] rec.prems(1) w1
    have "fst (removeRecursive_loop n p (entries lst) w1) \<noteq> None" by simp
    with l Inr show ?thesis
      by (auto simp: removeRecursive_Suc split: option.splits sum.splits prod.splits)
  qed
next
  case (nil n p w)
  show ?case by simp
next
  case (cons n p e es w)
  obtain r1 w1 where f: "remove_entry n p e w = (r1, w1)" by (cases "remove_entry n p e w")
  have r1: "r1 \<noteq> None"
  proof (cases "isDirectory e")
    case True
    with cons.IH(1) cons.prems f show ?thesis by (auto simp: remove_entry_def)
  next
    case False
    with f show ?thesis by (auto simp: remove_entry_def split: prod.splits)
  qed
  show ?case
  proof (cases "r1 = Some (Inr ())")
    case True
    from remove_entry_paths [OF f] cons.prems(1) have "\<forall>q\<in>paths w1. length q \<le> L" by blast
    with cons.IH(2) [of w1] f True cons.prems(2)
    have "fst (removeRecursive_loop n p es w1) \<noteq> None" by simp
    with f True show ?thesis by (simp add: removeRecursive_loop_Cons)
  next
    case False
    with r1 f show ?thesis
      by (auto simp: removeRecursive_loop_Cons split: option.splits sum.splits)
  qed
qed

lemma removeRecursive_returns:
  assumes "longest (remote w) < fuel"
  shows "fst (removeRecursive fuel p w) \<noteq> None"
proof -
  have "\<forall>q\<in>paths w. length q \<le> longest (remote w)"
    by (auto simp: paths_def dest: longest_bound)
  from fuel_enough(1) [OF this, of fuel p] assms show ?thesis by simp
qed


lemma removals_append [simp]: "removals (cs @ ds) = removals cs @ removals ds"
  by (induction cs rule: removals.induct) auto

lemma entries_among_append [simp]:
  "entries_among d (qs @ rs) = entries_among d qs @ entries_among d rs"
  by (induction qs) (auto split: option.splits)

lemma below_not_entry: "below (d @ ''/'' @ n) q \<Longrightarrow> child_name d q = None"
  by (auto simp: below_def child_name_def prefix_def strip_prefix_Some split: option.splits)

lemma entries_among_below:
  "\<forall>q\<in>set qs. below (d @ ''/'' @ n) q \<Longrightarrow> entries_among d qs = []"
  by (induction qs) (auto simp: below_not_entry)

lemma below_trans: "below (d @ ''/'' @ n) q \<Longrightarrow> below d q"
  by (auto simp: below_def prefix_def)

lemma below_entry: "below d (d @ ''/'' @ n)"
  by (simp add: below_def)

lemma child_name_entry: "n \<noteq> [] \<Longrightarrow> CHR ''/'' \<notin> set n \<Longrightarrow> child_name d (d @ ''/'' @ n) = Some n"
  by (simp add: child_name_Some)

lemma child_name_self [simp]: "child_name d d = None"
  by (auto simp: child_name_def strip_prefix_Some split: option.splits)

lemma sftp_calls_touch [simp]: "sftp_calls (touch w) = sftp_calls w"
  by (simp add: touch_def)

lemma sftp_calls_called [simp]: "sftp_calls (called c w) = sftp_calls w @ [c]"
  by (simp add: called_def)

lemma unlink_success_calls:
  "unlink q w = (Inr (), w') \<Longrightarrow> sftp_calls w' = sftp_calls w @ [Unlink q]"
  by (auto simp: unlink_def srv_unlink_def split: sum.splits option.splits if_splits)

lemma rmdir_success_calls:
  "rmdir q w = (Inr (), w') \<Longrightarrow> sftp_calls w' = sftp_calls w @ [Rmdir q]"
  by (auto simp: rmdir_def srv_rmdir_def split: sum.splits option.splits if_splits)

lemma listDirectory_success_calls:
  "listDirectory q w = (Inr lst, w') \<Longrightarrow> sftp_calls w' = sftp_calls w @ [Readdir q]"
  by (auto simp: listDirectory_def Let_def split: sum.splits)

text \<open>
  What a successful run removes: \<open>removeRecursive\<close> removes paths below its directory and
  then the directory; its loop removes paths below the directory, and of the entries of the
  directory exactly the ones listed, in the order of the list.
\<close>

lemma removeRecursive_order:
  "removeRecursive n p w = (Some (Inr ()), w') \<Longrightarrow>
     \<exists>cs qs. sftp_calls w' = sftp_calls w @ cs \<and> removals cs = qs @ [p] \<and> (\<forall>q\<in>set qs. below p q)
       \<and> (\<forall>lst w1. listDirectory p w = (Inr lst, w1) \<longrightarrow>
             entries_among p qs = map filename (entries lst))"
  "removeRecursive_loop n p es w = (Some (Inr ()), w') \<Longrightarrow>
     \<forall>e\<in>set es. filename e \<noteq> [] \<and> CHR ''/'' \<notin> set (filename e) \<Longrightarrow>
     \<exists>cs. sftp_calls w' = sftp_calls w @ cs \<and> (\<forall>q\<in>set (removals cs). below p q)
       \<and> entries_among p (removals cs) = map filename es"
proof (induction n p w and n p es w arbitrary: w' and w' rule: removeRecursive_induct)
  case (zero p w)
  then show ?case by simp
next
  case (rec n p w)
  from rec.prems obtain lst w1 where l: "listDirectory p w = (Inr lst, w1)"
    by (auto simp: removeRecursive_Suc split: prod.splits sum.splits)
  with rec.prems obtain w2 where
    l2: "removeRecursive_loop n p (entries lst) w1 = (Some (Inr ()), w2)"
    and l3: "rmdir p w2 = (Inr (), w')"
    by (auto simp: removeRecursive_Suc split: prod.splits sum.splits option.splits)
  have names: "\<forall>e\<in>set (entries lst). filename e \<noteq> [] \<and> CHR ''/'' \<notin> set (filename e)"
    using listDirectory_entries [OF l] by blast
  from rec.IH [OF l l2 names] obtain cs where
    cs: "sftp_calls w2 = sftp_calls w1 @ cs" "\<forall>q\<in>set (removals cs). below p q"
      "entries_among p (removals cs) = map filename (entries lst)"
    by blast
  have "sftp_calls w' = sftp_calls w @ (Readdir p # cs @ [Rmdir p])"
    using listDirectory_success_calls [OF l] rmdir_success_calls [OF l3] cs(1) by simp
  moreover have "removals (Readdir p # cs @ [Rmdir p]) = removals cs @ [p]" by simp
  ultimately have "sftp_calls w' = sftp_calls w @ (Readdir p # cs @ [Rmdir p])
      \<and> removals (Readdir p # cs @ [Rmdir p]) = removals cs @ [p]
      \<and> (\<forall>q\<in>set (removals cs). below p q)
      \<and> (\<forall>lst' w1'. listDirectory p w = (Inr lst', w1') \<longrightarrow>
             entries_among p (removals cs) = map filename (entries lst'))"
    using cs(2,3) l by simp
  then show ?case by blast
next
  case (nil n p w)
  then show ?case by simp
next
  case (cons n p e es w)
  from cons.prems(1) obtain w1 where
    f: "remove_entry n p e w = (Some (Inr ()), w1)"
    and r: "removeRecursive_loop n p es w1 = (Some (Inr ()), w')"
    by (auto simp: removeRecursive_loop_Cons split: prod.splits option.splits sum.splits)
  from cons.prems(2) have ne: "filename e \<noteq> []" "CHR ''/'' \<notin> set (filename e)"
    and rest: "\<forall>e\<in>set es. filename e \<noteq> [] \<and> CHR ''/'' \<notin> set (filename e)"
    by auto
  let ?q = "p @ ''/'' @ filename e"
  have first: "\<exists>cs. sftp_calls w1 = sftp_calls w @ cs \<and> (\<forall>q\<in>set (removals cs). below p q)
      \<and> entries_among p (removals cs) = [filename e]"
  proof (cases "isDirectory e")
    case True
    with f have "removeRecursive n ?q w = (Some (Inr ()), w1)" by (simp add: remove_entry_def)
    from cons.IH(1) [OF True this] obtain cs qs where
      c: "sftp_calls w1 = sftp_calls w @ cs" "removals cs = qs @ [?q]" "\<forall>q\<in>set qs. below ?q q"
      by blast
    from c(3) have "entries_among p qs = []" by (rule entries_among_below)
    moreover from c(3) have "\<forall>q\<in>set qs. below p q" using below_trans by blast
    ultimately show ?thesis
      using c(1,2) ne below_entry [of p "filename e"] child_name_entry [of "filename e" p]
      by auto
  next
    case False
    with f have "unlink ?q w = (Inr (), w1)"
      by (auto simp: remove_entry_def split: prod.splits)
    from unlink_success_calls [OF this] show ?thesis
      using ne below_entry [of p "filename e"] child_name_entry [of "filename e" p] by auto
  qed
  then obtain cs1 where c1: "sftp_calls w1 = sftp_calls w @ cs1"
      "\<forall>q\<in>set (removals cs1). below p q" "entries_among p (removals cs1) = [filename e]"
    by blast
  from cons.IH(2) [OF f r rest] obtain cs2 where c2: "sftp_calls w' = sftp_calls w1 @ cs2"
      "\<forall>q\<in>set (removals cs2). below p q" "entries_among p (removals cs2) = map filename es"
    by blast
  have "sftp_calls w' = sftp_calls w @ (cs1 @ cs2)" using c1(1) c2(1) by simp
  moreover have "\<forall>q\<in>set (removals (cs1 @ cs2)). below p q" using c1(2) c2(2) by auto
  moreover have "entries_among p (removals (cs1 @ cs2)) = map filename (e # es)"
    using c1(3) c2(3) by simp
  ultimately show ?case by blast
qed


lemma rmdir_success_empty:
  "rmdir p w = (Inr (), w') \<Longrightarrow> \<forall>q\<in>paths w'. q \<noteq> p \<and> \<not> below p q"
  by (auto simp: rmdir_def srv_rmdir_def paths_def list_ex_iff
      split: sum.splits option.splits if_splits)

lemma removeRecursive_success_empty:
  assumes "removeRecursive n p w = (Some (Inr ()), w')"
  shows "\<forall>q\<in>paths w'. q \<noteq> p \<and> \<not> below p q"
proof (cases n)
  case 0
  with assms show ?thesis by simp
next
  case (Suc k)
  with assms obtain w2 where "rmdir p w2 = (Inr (), w')"
    by (auto simp: removeRecursive_Suc split: prod.splits sum.splits option.splits)
  then show ?thesis by (rule rmdir_success_empty)
qed

lemma remove_unfold:
  "stat p w = (Inr info, w1) \<Longrightarrow>
     remove fuel p options w =
       (if isDirectory info
        then (if wants_recursive options
              then (case removeRecursive fuel p w1 of
                      (Some (Inl message), w') \<Rightarrow> (Some (Inl (''Failed to remove: '' @ message)), w')
                    | (r, w') \<Rightarrow> (r, w'))
              else rethrown (rmdir p w1))
        else rethrown (unlink p w1))"
  by (auto simp: remove_def wants_recursive_def rethrown_def Let_def
      split: prod.splits sum.splits option.splits)

subsection \<open>A directory in order is emptied\<close>

lemma cuts_complete:
  "acc @ q = d @ ''/'' @ r \<Longrightarrow> length acc \<le> length d \<Longrightarrow> (d, r) \<in> set (cuts acc q)"
proof (induction q arbitrary: acc)
  case Nil
  then have "length (acc @ []) = length (d @ ''/'' @ r)" by simp
  with Nil.prems(2) show ?case by simp
next
  case (Cons c cs)
  show ?case
  proof (cases "length acc = length d")
    case True
    with Cons.prems have "acc = d" "c # cs = ''/'' @ r" by (auto simp: append_eq_append_conv)
    then show ?thesis by simp
  next
    case False
    with Cons.prems have lt: "length acc < length d" by simp
    from Cons.prems(1) have "(acc @ [c]) @ cs = d @ ''/'' @ r" by simp
    moreover from lt have "length (acc @ [c]) \<le> length d" by simp
    ultimately have "(d, r) \<in> set (cuts (acc @ [c]) cs)" by (rule Cons.IH)
    then show ?thesis by simp
  qed
qed

lemma in_orderD:
  assumes "in_order p fs" "(d @ ''/'' @ r, st) \<in> set fs" "d = p \<or> below p d"
  shows "r \<noteq> [] \<and> hd r \<noteq> CHR ''/'' \<and> (\<exists>sd. map_of fs d = Some sd \<and> is_dir_stats sd)"
proof -
  have "(d, r) \<in> set (cuts [] (d @ ''/'' @ r))"
    by (rule cuts_complete) simp_all
  with assms(1,2) have "on_the_way p fs (d, r)"
    by (auto simp: in_order_def list_all_iff)
  with assms(3) show ?thesis
    by (auto simp: on_the_way_def split: option.splits)
qed

lemma below_self [simp]: "\<not> below p p"
  by (simp add: below_def prefix_def)

lemma below_entry_self [simp]: "\<not> below (p @ ''/'' @ n) p"
  by (auto simp: below_def prefix_def)

lemma below_length: "below d q \<Longrightarrow> length d < length q"
  by (auto simp: below_def prefix_def)

lemma below_append: "below d (d @ ''/'' @ r)"
  by (simp add: below_def)

lemma below_belowI: "below d q \<Longrightarrow> below d (q @ ''/'' @ r)"
  by (auto simp: below_def prefix_def)

lemma no_slash_not_below:
  "CHR ''/'' \<notin> set n' \<Longrightarrow> \<not> below (p @ ''/'' @ n) (p @ ''/'' @ n')"
  by (auto simp: below_def prefix_def)

lemma first_name:
  assumes "r \<noteq> []" "hd r \<noteq> CHR ''/''"
  obtains n where "n \<noteq> []" "CHR ''/'' \<notin> set n"
    "r = n \<or> (\<exists>r'. r = n @ ''/'' @ r')"
proof -
  let ?n = "takeWhile (\<lambda>c. c \<noteq> CHR ''/'') r"
  let ?t = "dropWhile (\<lambda>c. c \<noteq> CHR ''/'') r"
  from assms have 1: "?n \<noteq> []" by (cases r) auto
  have 2: "CHR ''/'' \<notin> set ?n" by (auto dest: set_takeWhileD)
  have 3: "r = ?n @ ?t" by simp
  have "r = ?n \<or> (\<exists>r'. r = ?n @ ''/'' @ r')"
  proof (cases ?t)
    case Nil
    with 3 show ?thesis by simp
  next
    case (Cons c cs)
    then have "c = CHR ''/''" using hd_dropWhile [of "\<lambda>c. c \<noteq> CHR ''/''" r] by auto
    with Cons 3 have "r = ?n @ ''/'' @ cs" by simp
    then show ?thesis by blast
  qed
  with 1 2 that show thesis by blast
qed


subsection \<open>The listing of a directory\<close>

lemma isDirectory_attrs [simp]:
  "isDirectory (attrsToFileInfo n (attrs_of st) l) = is_dir_stats st"
  by (simp add: attrsToFileInfo_def attrs_of_def nullish_def isDirectoryMode_def is_dir_stats_def
      Let_def)

lemma listing_sound:
  "e \<in> set (listing d fs) \<Longrightarrow>
     \<exists>st. (d @ ''/'' @ fe_filename e, st) \<in> set fs \<and> fe_attrs e = attrs_of st
       \<and> fe_filename e \<noteq> [] \<and> CHR ''/'' \<notin> set (fe_filename e)"
proof (induction fs)
  case Nil
  then show ?case by simp
next
  case (Cons x fs)
  obtain q st where x: "x = (q, st)" by (cases x)
  show ?case
  proof (cases "e \<in> set (listing d fs)")
    case True
    with Cons.IH show ?thesis by auto
  next
    case False
    with Cons.prems x obtain n where "child_name d q = Some n" "fe_filename e = n"
      "fe_attrs e = attrs_of st"
      by (cases "child_name d q") auto
    with x show ?thesis by (auto simp: child_name_Some)
  qed
qed

lemma listing_complete:
  "(q, st) \<in> set fs \<Longrightarrow> child_name d q = Some n \<Longrightarrow> n \<in> fe_filename ` set (listing d fs)"
  by (induction fs) (auto split: option.splits)

lemma listing_distinct:
  "distinct (map fst fs) \<Longrightarrow> distinct (map fe_filename (listing d fs))"
proof (induction fs)
  case Nil
  then show ?case by simp
next
  case (Cons x fs)
  obtain q st where x: "x = (q, st)" by (cases x)
  show ?case
  proof (cases "child_name d q")
    case None
    with Cons x show ?thesis by simp
  next
    case (Some n)
    have "n \<notin> fe_filename ` set (listing d fs)"
    proof
      assume "n \<in> fe_filename ` set (listing d fs)"
      then obtain e where "e \<in> set (listing d fs)" "fe_filename e = n" by auto
      with listing_sound [of e d fs] obtain st' where "(d @ ''/'' @ n, st') \<in> set fs" by auto
      moreover from Some have "q = d @ ''/'' @ n" by (simp add: child_name_Some)
      ultimately have "q \<in> fst ` set fs" by force
      with Cons.prems x show False by simp
    qed
    with Cons x Some show ?thesis by simp
  qed
qed

subsection \<open>The single operations, when they succeed\<close>

lemma listDirectory_succeeds:
  assumes "getSFTP w = Inr h" "p \<notin> set (denied w)" "map_of (remote w) p = Some sp"
    "is_dir_stats sp"
  shows "\<exists>lst. listDirectory p w = (Inr lst, touch (called (Readdir p) w))
      \<and> entries lst = map (\<lambda>entry. attrsToFileInfo (fe_filename entry) (fe_attrs entry)
                                   (Some (fe_longname entry))) (listing p (remote w))"
  using assms by (simp add: listDirectory_def srv_readdir_def Let_def)

lemma unlink_succeeds:
  assumes "getSFTP w = Inr h" "q \<notin> set (denied w)" "map_of (remote w) q = Some st"
    "\<not> is_dir_stats st"
  shows "\<exists>w'. unlink q w = (Inr (), w') \<and> remote w' = filter (\<lambda>(r, _). r \<noteq> q) (remote w)
      \<and> denied w' = denied w \<and> getSFTP w' = Inr h"
  using assms by (simp add: unlink_def srv_unlink_def touch_def called_def getSFTP_def)

lemma rmdir_succeeds:
  assumes "getSFTP w = Inr h" "q \<notin> set (denied w)" "map_of (remote w) q = Some st"
    "is_dir_stats st" "\<not> list_ex (\<lambda>(r, _). below q r) (remote w)"
  shows "\<exists>w'. rmdir q w = (Inr (), w') \<and> remote w' = filter (\<lambda>(r, _). r \<noteq> q) (remote w)
      \<and> denied w' = denied w \<and> getSFTP w' = Inr h"
  using assms by (simp add: rmdir_def srv_rmdir_def touch_def called_def getSFTP_def)

subsection \<open>Pruning keeps a file system in order\<close>

lemma map_of_pruned:
  "map_of fs d = Some sd \<Longrightarrow> d \<noteq> x \<Longrightarrow> \<not> below x d \<Longrightarrow> map_of (pruned x fs) d = Some sd"
  unfolding pruned_def by (rule map_of_filter_in) auto

lemma distinct_pruned: "distinct (map fst fs) \<Longrightarrow> distinct (map fst (pruned x fs))"
  unfolding pruned_def by (rule distinct_map_filter)

lemma set_pruned: "set (pruned x fs) = {(q, st). (q, st) \<in> set fs \<and> q \<noteq> x \<and> \<not> below x q}"
  by (auto simp: pruned_def)

lemma below_below: "below x d \<Longrightarrow> below d q \<Longrightarrow> below x q"
  by (auto simp: below_def prefix_def)


lemma cuts_sound: "(d, r) \<in> set (cuts acc q) \<Longrightarrow> acc @ q = d @ ''/'' @ r"
proof (induction q arbitrary: acc)
  case Nil
  then show ?case by simp
next
  case (Cons c cs)
  show ?case
  proof (cases "(d, r) \<in> set (cuts (acc @ [c]) cs)")
    case True
    from Cons.IH [OF this] show ?thesis by simp
  next
    case False
    with Cons.prems show ?thesis by (auto split: if_splits)
  qed
qed

lemma in_order_iff:
  "in_order p fs \<longleftrightarrow>
     (\<forall>d r st. (d @ ''/'' @ r, st) \<in> set fs \<and> (d = p \<or> below p d) \<longrightarrow>
        r \<noteq> [] \<and> hd r \<noteq> CHR ''/'' \<and> (\<exists>sd. map_of fs d = Some sd \<and> is_dir_stats sd))"
proof
  assume "in_order p fs"
  then show "\<forall>d r st. (d @ ''/'' @ r, st) \<in> set fs \<and> (d = p \<or> below p d) \<longrightarrow>
        r \<noteq> [] \<and> hd r \<noteq> CHR ''/'' \<and> (\<exists>sd. map_of fs d = Some sd \<and> is_dir_stats sd)"
    using in_orderD by blast
next
  assume a: "\<forall>d r st. (d @ ''/'' @ r, st) \<in> set fs \<and> (d = p \<or> below p d) \<longrightarrow>
        r \<noteq> [] \<and> hd r \<noteq> CHR ''/'' \<and> (\<exists>sd. map_of fs d = Some sd \<and> is_dir_stats sd)"
  show "in_order p fs"
    unfolding in_order_def list_all_iff
  proof (intro ballI, clarify)
    fix q st d r
    assume q: "(q, st) \<in> set fs" and c: "(d, r) \<in> set (cuts [] q)"
    from cuts_sound [OF c] have e: "q = d @ ''/'' @ r" by simp
    show "on_the_way p fs (d, r)"
    proof (cases "d = p \<or> below p d")
      case False
      then show ?thesis by (simp add: on_the_way_def)
    next
      case True
      with a q e obtain sd where "r \<noteq> []" "hd r \<noteq> CHR ''/''" "map_of fs d = Some sd"
        "is_dir_stats sd"
        by blast
      then show ?thesis by (auto simp: on_the_way_def)
    qed
  qed
qed

lemma in_order_entry: "in_order p fs \<Longrightarrow> in_order (p @ ''/'' @ n) fs"
  unfolding in_order_iff using below_trans below_entry by blast

lemma in_order_pruned:
  assumes "in_order p fs"
  shows "in_order p (pruned x fs)"
  unfolding in_order_iff
proof (intro allI impI, elim conjE)
  fix d r st
  assume m: "(d @ ''/'' @ r, st) \<in> set (pruned x fs)" and d: "d = p \<or> below p d"
  from m have f: "(d @ ''/'' @ r, st) \<in> set fs" and k: "d @ ''/'' @ r \<noteq> x"
    "\<not> below x (d @ ''/'' @ r)"
    by (auto simp: set_pruned)
  from assms f d obtain sd where r: "r \<noteq> []" "hd r \<noteq> CHR ''/''"
    and sd: "map_of fs d = Some sd" "is_dir_stats sd"
    unfolding in_order_iff by blast
  from k(2) have "d \<noteq> x" using below_append [of d r] by auto
  moreover from k(2) have "\<not> below x d" using below_belowI [of x d r] by auto
  ultimately have "map_of (pruned x fs) d = Some sd" using sd(1) by (simp add: map_of_pruned)
  with r sd(2) show "r \<noteq> [] \<and> hd r \<noteq> CHR ''/'' \<and> (\<exists>sd. map_of (pruned x fs) d = Some sd \<and> is_dir_stats sd)"
    by blast
qed

text \<open>Every path below a directory in order is a listed entry of it or lies below one.\<close>

lemma covered:
  assumes "in_order p fs" "(q, st) \<in> set fs" "below p q"
  shows "\<exists>n\<in>fe_filename ` set (listing p fs). q = p @ ''/'' @ n \<or> below (p @ ''/'' @ n) q"
proof -
  from assms(3) obtain r where q: "q = p @ ''/'' @ r" by (auto simp: below_def prefix_def)
  with assms(1,2) have "r \<noteq> []" "hd r \<noteq> CHR ''/''" unfolding in_order_iff by blast+
  then obtain n where n: "n \<noteq> []" "CHR ''/'' \<notin> set n" "r = n \<or> (\<exists>r'. r = n @ ''/'' @ r')"
    by (rule first_name)
  from n(3) show ?thesis
  proof
    assume "r = n"
    with q n have "child_name p q = Some n" by (simp add: child_name_Some)
    from listing_complete [OF assms(2) this] q \<open>r = n\<close> show ?thesis by blast
  next
    assume "\<exists>r'. r = n @ ''/'' @ r'"
    then obtain r' where r': "r = n @ ''/'' @ r'" by blast
    with q have q': "q = (p @ ''/'' @ n) @ ''/'' @ r'" by simp
    with assms(1,2) below_entry [of p n] obtain sd where "map_of fs (p @ ''/'' @ n) = Some sd"
      unfolding in_order_iff by blast
    then have "(p @ ''/'' @ n, sd) \<in> set fs" by (rule map_of_SomeD)
    moreover from n have "child_name p (p @ ''/'' @ n) = Some n" by (simp add: child_name_Some)
    ultimately have "n \<in> fe_filename ` set (listing p fs)" by (rule listing_complete)
    moreover from q' have "below (p @ ''/'' @ n) q" using below_append by blast
    ultimately show ?thesis by blast
  qed
qed

text \<open>Below a file of a file system in order there is nothing.\<close>

lemma nothing_below_file:
  assumes "in_order p fs" "map_of fs (p @ ''/'' @ n) = Some st" "\<not> is_dir_stats st"
    "(q, sq) \<in> set fs"
  shows "\<not> below (p @ ''/'' @ n) q"
proof
  assume "below (p @ ''/'' @ n) q"
  then obtain r where "q = (p @ ''/'' @ n) @ ''/'' @ r" by (auto simp: below_def prefix_def)
  with assms(1,4) below_entry [of p n] obtain sd where
    "map_of fs (p @ ''/'' @ n) = Some sd" "is_dir_stats sd"
    unfolding in_order_iff by blast
  with assms(2,3) show False by simp
qed


lemma without_entries_Nil [simp]: "without_entries p [] fs = fs"
  by (simp add: without_entries_def)

lemma without_entries_Cons:
  "without_entries p (e # es) fs = without_entries p es (pruned (p @ ''/'' @ filename e) fs)"
  by (auto simp: without_entries_def pruned_def intro: filter_cong)

lemma removeRecursive_empties:
  "getSFTP w = Inr h \<Longrightarrow> \<forall>q\<in>set (denied w). q \<noteq> p \<and> \<not> below p q \<Longrightarrow>
   distinct (map fst (remote w)) \<Longrightarrow> in_order p (remote w) \<Longrightarrow>
   \<exists>sp. map_of (remote w) p = Some sp \<and> is_dir_stats sp \<Longrightarrow>
   fst (removeRecursive n p w) \<noteq> None \<Longrightarrow>
     \<exists>w'. removeRecursive n p w = (Some (Inr ()), w') \<and> remote w' = pruned p (remote w)
       \<and> denied w' = denied w \<and> getSFTP w' = Inr h"
  "getSFTP w = Inr h \<Longrightarrow> \<forall>q\<in>set (denied w). q \<noteq> p \<and> \<not> below p q \<Longrightarrow>
   distinct (map fst (remote w)) \<Longrightarrow> in_order p (remote w) \<Longrightarrow>
   \<forall>e\<in>set es. filename e \<noteq> [] \<and> CHR ''/'' \<notin> set (filename e)
      \<and> (\<exists>st. map_of (remote w) (p @ ''/'' @ filename e) = Some st
             \<and> isDirectory e = is_dir_stats st) \<Longrightarrow>
   distinct (map filename es) \<Longrightarrow>
   fst (removeRecursive_loop n p es w) \<noteq> None \<Longrightarrow>
     \<exists>w'. removeRecursive_loop n p es w = (Some (Inr ()), w')
       \<and> remote w' = without_entries p es (remote w)
       \<and> denied w' = denied w \<and> getSFTP w' = Inr h"
proof (induction n p w and n p es w rule: removeRecursive_induct)
  case (zero p w)
  then show ?case by simp
next
  case (rec n p w)
  let ?fs = "remote w"
  let ?w1 = "touch (called (Readdir p) w)"
  from rec.prems(5) obtain sp where sp: "map_of ?fs p = Some sp" "is_dir_stats sp" by blast
  from rec.prems(2) have pd: "p \<notin> set (denied w)" by auto
  from listDirectory_succeeds [OF rec.prems(1) pd sp] obtain lst where
    l: "listDirectory p w = (Inr lst, ?w1)"
    and es: "entries lst = map (\<lambda>entry. attrsToFileInfo (fe_filename entry) (fe_attrs entry)
                                   (Some (fe_longname entry))) (listing p ?fs)"
    by blast
  have w1: "remote ?w1 = ?fs" "denied ?w1 = denied w" "getSFTP ?w1 = Inr h"
    using rec.prems(1) by (simp_all add: touch_def called_def getSFTP_def)
  have names: "map filename (entries lst) = map fe_filename (listing p ?fs)"
    by (simp add: es)
  have valid: "\<forall>e\<in>set (entries lst). filename e \<noteq> [] \<and> CHR ''/'' \<notin> set (filename e)
      \<and> (\<exists>st. map_of (remote ?w1) (p @ ''/'' @ filename e) = Some st
             \<and> isDirectory e = is_dir_stats st)"
  proof
    fix e assume "e \<in> set (entries lst)"
    with es obtain fe where fe: "fe \<in> set (listing p ?fs)"
      and e: "e = attrsToFileInfo (fe_filename fe) (fe_attrs fe) (Some (fe_longname fe))"
      by auto
    from listing_sound [OF fe] obtain st where
      st: "(p @ ''/'' @ fe_filename fe, st) \<in> set ?fs" "fe_attrs fe = attrs_of st"
        "fe_filename fe \<noteq> []" "CHR ''/'' \<notin> set (fe_filename fe)"
      by blast
    from st(1) rec.prems(3) have "map_of ?fs (p @ ''/'' @ fe_filename fe) = Some st"
      by (simp add: map_of_is_SomeI)
    with st e show "filename e \<noteq> [] \<and> CHR ''/'' \<notin> set (filename e)
      \<and> (\<exists>st. map_of (remote ?w1) (p @ ''/'' @ filename e) = Some st
             \<and> isDirectory e = is_dir_stats st)"
      by (simp add: w1)
  qed
  have dn: "distinct (map filename (entries lst))"
    unfolding names using rec.prems(3) by (rule listing_distinct)
  from rec.prems(6) l have nn: "fst (removeRecursive_loop n p (entries lst) ?w1) \<noteq> None"
    by (auto simp: removeRecursive_Suc split: prod.splits option.splits sum.splits)
  from rec.IH [OF l] w1 rec.prems(2,3,4) valid dn nn obtain w2 where
    l2: "removeRecursive_loop n p (entries lst) ?w1 = (Some (Inr ()), w2)"
    and w2: "remote w2 = without_entries p (entries lst) ?fs" "denied w2 = denied w"
      "getSFTP w2 = Inr h"
    by auto
  have covered_all: "\<And>q st. (q, st) \<in> set ?fs \<Longrightarrow> below p q \<Longrightarrow>
      \<exists>e\<in>set (entries lst). q = p @ ''/'' @ filename e \<or> below (p @ ''/'' @ filename e) q"
  proof -
    fix q st assume "(q, st) \<in> set ?fs" "below p q"
    from covered [OF rec.prems(4) this] obtain m where
      "m \<in> fe_filename ` set (listing p ?fs)" "q = p @ ''/'' @ m \<or> below (p @ ''/'' @ m) q"
      by blast
    moreover have "fe_filename ` set (listing p ?fs) = filename ` set (entries lst)"
      using names by (metis list.set_map)
    ultimately show "\<exists>e\<in>set (entries lst). q = p @ ''/'' @ filename e \<or> below (p @ ''/'' @ filename e) q"
      by auto
  qed
  have keep: "map_of (remote w2) p = Some sp"
    unfolding w2(1) without_entries_def
    by (rule map_of_filter_in [OF sp(1)]) (auto dest: below_length)
  have none: "\<not> list_ex (\<lambda>(r, _). below p r) (remote w2)"
  proof
    assume "list_ex (\<lambda>(r, _). below p r) (remote w2)"
    then obtain q st where q: "(q, st) \<in> set (remote w2)" "below p q"
      by (auto simp: list_ex_iff)
    from q(1) have "(q, st) \<in> set ?fs"
      and "\<forall>e\<in>set (entries lst). q \<noteq> p @ ''/'' @ filename e \<and> \<not> below (p @ ''/'' @ filename e) q"
      by (auto simp: w2(1) without_entries_def)
    with covered_all q(2) show False by blast
  qed
  from pd w2(2) have pd2: "p \<notin> set (denied w2)" by simp
  from rmdir_succeeds [OF w2(3) pd2 keep sp(2) none] obtain w3 where
    r: "rmdir p w2 = (Inr (), w3)" and w3: "remote w3 = filter (\<lambda>(r, _). r \<noteq> p) (remote w2)"
      "denied w3 = denied w2" "getSFTP w3 = Inr h"
    by blast
  have "remote w3 = pruned p ?fs"
    unfolding w3(1) w2(1) without_entries_def pruned_def filter_filter
  proof (rule filter_cong [OF refl])
    fix x assume x: "x \<in> set ?fs"
    obtain q st where xq: "x = (q, st)" by (cases x)
    show "(case x of (q, _) \<Rightarrow> \<forall>e\<in>set (entries lst). q \<noteq> p @ ''/'' @ filename e
              \<and> \<not> below (p @ ''/'' @ filename e) q) \<and> (case x of (r, _) \<Rightarrow> r \<noteq> p)
        \<longleftrightarrow> (case x of (q, _) \<Rightarrow> q \<noteq> p \<and> \<not> below p q)"
      using covered_all [of q st] x xq below_trans [of p _ q] below_entry [of p]
      by auto
  qed
  with l l2 r w3 w2 show ?case
    by (simp add: removeRecursive_Suc)
next
  case (nil n p w)
  then show ?case by simp
next
  case (cons n p e es w)
  let ?fs = "remote w"
  let ?x = "p @ ''/'' @ filename e"
  from cons.prems(5) obtain st where
    ne: "filename e \<noteq> []" "CHR ''/'' \<notin> set (filename e)"
    and st: "map_of ?fs ?x = Some st" "isDirectory e = is_dir_stats st"
    by auto
  have xd: "\<forall>q\<in>set (denied w). q \<noteq> ?x \<and> \<not> below ?x q"
    using cons.prems(2) below_entry [of p "filename e"] below_trans [of p "filename e"] by blast
  obtain r1 w1' where f: "remove_entry n p e w = (r1, w1')" by (cases "remove_entry n p e w")
  from cons.prems(7) f have r1: "r1 \<noteq> None"
    by (auto simp: removeRecursive_loop_Cons split: option.splits)
  have first: "\<exists>w1. remove_entry n p e w = (Some (Inr ()), w1) \<and> remote w1 = pruned ?x ?fs
      \<and> denied w1 = denied w \<and> getSFTP w1 = Inr h"
  proof (cases "isDirectory e")
    case True
    with f r1 have "fst (removeRecursive n ?x w) \<noteq> None" by (simp add: remove_entry_def)
    moreover from st True have "\<exists>sp. map_of ?fs ?x = Some sp \<and> is_dir_stats sp" by simp
    ultimately show ?thesis
      using cons.IH(1) [OF True cons.prems(1) xd cons.prems(3) in_order_entry [OF cons.prems(4)]] True
      by (simp add: remove_entry_def)
  next
    case False
    with st have nd: "\<not> is_dir_stats st" by simp
    from xd have "?x \<notin> set (denied w)" by auto
    from unlink_succeeds [OF cons.prems(1) this st(1) nd] obtain w1 where
      u: "unlink ?x w = (Inr (), w1)" "remote w1 = filter (\<lambda>(r, _). r \<noteq> ?x) ?fs"
        "denied w1 = denied w" "getSFTP w1 = Inr h"
      by blast
    have "filter (\<lambda>(r, _). r \<noteq> ?x) ?fs = pruned ?x ?fs"
      unfolding pruned_def
      using nothing_below_file [OF cons.prems(4) st(1) nd]
      by (intro filter_cong) auto
    with u False show ?thesis by (simp add: remove_entry_def)
  qed
  then obtain w1 where f1: "remove_entry n p e w = (Some (Inr ()), w1)"
    and w1: "remote w1 = pruned ?x ?fs" "denied w1 = denied w" "getSFTP w1 = Inr h"
    by blast
  have valid: "\<forall>e'\<in>set es. filename e' \<noteq> [] \<and> CHR ''/'' \<notin> set (filename e')
      \<and> (\<exists>st. map_of (remote w1) (p @ ''/'' @ filename e') = Some st
             \<and> isDirectory e' = is_dir_stats st)"
  proof
    fix e' assume e': "e' \<in> set es"
    with cons.prems(5) obtain st' where
      a: "filename e' \<noteq> []" "CHR ''/'' \<notin> set (filename e')"
        "map_of ?fs (p @ ''/'' @ filename e') = Some st'" "isDirectory e' = is_dir_stats st'"
      by auto
    from cons.prems(6) have "filename e \<notin> filename ` set es" by simp
    with e' have "filename e' \<noteq> filename e" by (metis imageI)
    then have "p @ ''/'' @ filename e' \<noteq> ?x" by simp
    moreover from a(2) have "\<not> below ?x (p @ ''/'' @ filename e')" by (rule no_slash_not_below)
    ultimately have "map_of (remote w1) (p @ ''/'' @ filename e') = Some st'"
      unfolding w1(1) using a(3) by (simp add: map_of_pruned)
    with a show "filename e' \<noteq> [] \<and> CHR ''/'' \<notin> set (filename e')
      \<and> (\<exists>st. map_of (remote w1) (p @ ''/'' @ filename e') = Some st
             \<and> isDirectory e' = is_dir_stats st)"
      by blast
  qed
  from cons.prems(7) f1 have nn: "fst (removeRecursive_loop n p es w1) \<noteq> None"
    by (simp add: removeRecursive_loop_Cons)
  from cons.prems(6) have dn: "distinct (map filename es)" by simp
  have d1: "distinct (map fst (remote w1))" unfolding w1(1) using cons.prems(3) by (rule distinct_pruned)
  have o1: "in_order p (remote w1)" unfolding w1(1) using cons.prems(4) by (rule in_order_pruned)
  have dd: "\<forall>q\<in>set (denied w1). q \<noteq> p \<and> \<not> below p q" using cons.prems(2) w1(2) by simp
  from cons.IH(2) [OF f1 w1(3) dd d1 o1 valid dn nn] obtain w' where
    "removeRecursive_loop n p es w1 = (Some (Inr ()), w')"
    "remote w' = without_entries p es (remote w1)" "denied w' = denied w1" "getSFTP w' = Inr h"
    by blast
  with f1 w1 show ?case
    by (simp add: removeRecursive_loop_Cons without_entries_Cons)
qed


lemma stat_directory:
  assumes "stat p w = (Inr info, w1)" "isDirectory info"
  shows "\<exists>h sp. getSFTP w = Inr h \<and> p \<notin> set (denied w) \<and> map_of (remote w) p = Some sp
      \<and> is_dir_stats sp \<and> w1 = touch (called (Stat p) w)"
  using assms
  by (auto simp: stat_def srv_stat_def statsToFileInfo_def Stats_isDirectory_def is_dir_stats_def
      split: sum.splits option.splits if_splits)

lemma remove_recursive_empties:
  assumes s: "stat p w = (Inr info, w1)" and d: "isDirectory info" and r: "wants_recursive options"
    and t: "tidy_below p w" and f: "longest (remote w) < fuel"
  shows "fst (remove fuel p options w) = Some (Inr ())
       \<and> remote (snd (remove fuel p options w)) = pruned p (remote w)"
proof -
  from stat_directory [OF s d] obtain h sp where
    h: "getSFTP w = Inr h" and sp: "map_of (remote w) p = Some sp" "is_dir_stats sp"
    and w1: "w1 = touch (called (Stat p) w)"
    by blast
  have e: "remote w1 = remote w" "denied w1 = denied w" "getSFTP w1 = Inr h"
    using h by (simp_all add: w1 touch_def called_def getSFTP_def)
  from t have "\<forall>q\<in>set (denied w1). q \<noteq> p \<and> \<not> below p q" "distinct (map fst (remote w1))"
    "in_order p (remote w1)"
    by (simp_all add: tidy_below_def e list_all_iff)
  moreover from sp have "\<exists>sp. map_of (remote w1) p = Some sp \<and> is_dir_stats sp" by (simp add: e)
  moreover from f have "fst (removeRecursive fuel p w1) \<noteq> None"
    by (simp add: removeRecursive_returns e)
  ultimately obtain w' where "removeRecursive fuel p w1 = (Some (Inr ()), w')"
    "remote w' = pruned p (remote w1)"
    using removeRecursive_empties(1) [OF e(3)] by blast
  with s d r e show ?thesis by (simp add: remove_unfold)
qed

text \<open>
  C5, as amended: \<open>remove\<close> stats the target. A target that is not a directory is unlinked;
  a directory without \<open>recursive\<close> is given to a plain \<open>rmdir\<close>; in both cases an error
  is thrown again under the prefix of \<open>remove\<close>. A directory with \<open>recursive\<close> is emptied
  depth-first in the order of its listing, whatever the kinds of the entries. When the
  server refuses nothing at or below the directory and every path below it is in order,
  the call succeeds, and afterwards the remote file system is what it was without the
  directory and everything below it. In every successful run, every path removed before the
  directory itself lies below it, the entries of the directory are removed one after the
  other in the order the listing gave them (a subdirectory being emptied and removed when
  its turn comes), and the directory is removed last, so that neither it nor any entry below
  it remains. The recursion returns: a fuel above the length of the longest remote path is
  never used up.
\<close>

theorem remove_in_listing_order:
  assumes "stat p w = (Inr info, w1)"
  shows "(\<not> isDirectory info \<longrightarrow> remove fuel p options w = rethrown (unlink p w1))
       \<and> (isDirectory info \<and> \<not> wants_recursive options \<longrightarrow>
            remove fuel p options w = rethrown (rmdir p w1))
       \<and> (isDirectory info \<and> wants_recursive options \<and> longest (remote w) < fuel \<longrightarrow>
            fst (remove fuel p options w) \<noteq> None)
       \<and> (isDirectory info \<and> wants_recursive options \<and> tidy_below p w
            \<and> longest (remote w) < fuel \<longrightarrow>
              fst (remove fuel p options w) = Some (Inr ())
            \<and> remote (snd (remove fuel p options w)) = pruned p (remote w))
       \<and> (isDirectory info \<and> wants_recursive options
            \<and> remove fuel p options w = (Some (Inr ()), w') \<longrightarrow>
              (\<forall>q\<in>paths w'. q \<noteq> p \<and> \<not> below p q)
            \<and> (\<exists>cs qs. sftp_calls w' = sftp_calls w1 @ cs \<and> removals cs = qs @ [p]
                  \<and> (\<forall>q\<in>set qs. below p q)
                  \<and> (\<forall>lst w2. listDirectory p w1 = (Inr lst, w2) \<longrightarrow>
                        entries_among p qs = map filename (entries lst))))"
proof (intro conjI impI)
  assume "\<not> isDirectory info"
  with assms show "remove fuel p options w = rethrown (unlink p w1)"
    by (simp add: remove_unfold)
next
  assume "isDirectory info \<and> \<not> wants_recursive options"
  with assms show "remove fuel p options w = rethrown (rmdir p w1)"
    by (simp add: remove_unfold)
next
  assume a: "isDirectory info \<and> wants_recursive options \<and> longest (remote w) < fuel"
  from assms have "remote w1 = remote w" using stat_remote [of p w] by simp
  with a have "fst (removeRecursive fuel p w1) \<noteq> None"
    by (simp add: removeRecursive_returns)
  with assms a show "fst (remove fuel p options w) \<noteq> None"
    by (auto simp: remove_unfold split: prod.splits option.splits sum.splits)
next
  assume a: "isDirectory info \<and> wants_recursive options \<and> tidy_below p w
    \<and> longest (remote w) < fuel"
  with remove_recursive_empties [OF assms, of options fuel]
  show "fst (remove fuel p options w) = Some (Inr ())"
    and "remote (snd (remove fuel p options w)) = pruned p (remote w)"
    by blast+
next
  assume a: "isDirectory info \<and> wants_recursive options
    \<and> remove fuel p options w = (Some (Inr ()), w')"
  with assms have r: "removeRecursive fuel p w1 = (Some (Inr ()), w')"
    by (auto simp: remove_unfold split: prod.splits option.splits sum.splits)
  from removeRecursive_success_empty [OF r]
  show "\<forall>q\<in>paths w'. q \<noteq> p \<and> \<not> below p q" .
  from removeRecursive_order(1) [OF r]
  show "\<exists>cs qs. sftp_calls w' = sftp_calls w1 @ cs \<and> removals cs = qs @ [p]
      \<and> (\<forall>q\<in>set qs. below p q)
      \<and> (\<forall>lst w2. listDirectory p w1 = (Inr lst, w2) \<longrightarrow>
            entries_among p qs = map filename (entries lst))" .
qed

text \<open>
  C5, as stated, fails in the order it gives: a file listed before a subdirectory is
  unlinked before that subdirectory is removed.
\<close>

theorem file_unlinked_before_subdirectory_counterexample:
  "fst (remove 3 ''/srv/app'' all_of_it app_world) = Some (Inr ())
   \<and> sftp_calls (snd (remove 3 ''/srv/app'' all_of_it app_world)) =
       [Stat ''/srv/app'', Readdir ''/srv/app'', Unlink ''/srv/app/readme'',
        Readdir ''/srv/app/cache'', Unlink ''/srv/app/cache/blob'', Rmdir ''/srv/app/cache'',
        Readdir ''/srv/app/empty'', Rmdir ''/srv/app/empty'', Rmdir ''/srv/app'']
   \<and> \<not> subdirectories_before_files ''/srv/app''
         (sftp_calls (snd (remove 3 ''/srv/app'' all_of_it app_world)))"
  by code_simp

lemma remove_app_evaluated:
  "stat ''/srv/app'' app_world =
     (Inr (statsToFileInfo ''app'' dir_stats None), touch (called (Stat ''/srv/app'') app_world))"
  "isDirectory (statsToFileInfo ''app'' dir_stats None)"
  "wants_recursive all_of_it"
  "longest (remote app_world) < 20"
  "fst (remove 20 ''/srv/app'' all_of_it app_world) = Some (Inr ())"
  "map fst (remote (snd (remove 20 ''/srv/app'' all_of_it app_world))) = [''/srv'']"
  by code_simp+

lemma remove_app_tidy:
  "tidy_below ''/srv/app'' app_world"
  "pruned ''/srv/app'' (remote app_world) = [(''/srv'', dir_stats)]"
  by code_simp+

theorem remove_in_listing_order_witness:
  "fst (remove 20 ''/srv/app'' all_of_it app_world) = Some (Inr ())
   \<and> remote (snd (remove 20 ''/srv/app'' all_of_it app_world)) = [(''/srv'', dir_stats)]
   \<and> ''/srv/app'' \<notin> paths (snd (remove 20 ''/srv/app'' all_of_it app_world))"
proof -
  let ?w' = "snd (remove 20 ''/srv/app'' all_of_it app_world)"
  note t = remove_in_listing_order [OF remove_app_evaluated(1), of 20 all_of_it ?w']
  from t remove_app_evaluated(2,3,4) remove_app_tidy(1)
  have 1: "fst (remove 20 ''/srv/app'' all_of_it app_world) = Some (Inr ())"
    and 2: "remote ?w' = pruned ''/srv/app'' (remote app_world)"
    by blast+
  from 1 have r: "remove 20 ''/srv/app'' all_of_it app_world = (Some (Inr ()), ?w')"
    by (simp add: prod_eq_iff)
  from t remove_app_evaluated(2,3) r
  have "\<forall>q\<in>paths ?w'. q \<noteq> ''/srv/app'' \<and> \<not> below ''/srv/app'' q"
    by blast
  then have 3: "''/srv/app'' \<notin> paths ?w'" by blast
  from 1 2 3 remove_app_tidy(2) show ?thesis by simp
qed

subsection \<open>mkdir\<close>

lemma stat_present:
  "getSFTP w = Inr h \<Longrightarrow> present w q \<Longrightarrow>
     \<exists>info. stat q w = (Inr info, touch (called (Stat q) w))"
  by (auto simp: stat_def srv_stat_def present_def split: option.splits)

lemma stat_absent:
  "getSFTP w = Inr h \<Longrightarrow> stat q w = (Inl e, w1) \<Longrightarrow> \<not> present w q \<and> w1 = called (Stat q) w"
  by (auto simp: stat_def srv_stat_def present_def split: option.splits if_splits sum.splits)

lemma getSFTP_touch [simp]: "getSFTP (touch w) = getSFTP w"
  by (simp add: getSFTP_def touch_def)

lemma getSFTP_called [simp]: "getSFTP (called c w) = getSFTP w"
  by (simp add: getSFTP_def called_def)

lemma present_touch [simp]: "present (touch w) q = present w q"
  by (simp add: present_def touch_def)

lemma present_called [simp]: "present (called c w) q = present w q"
  by (simp add: present_def called_def)

lemma srv_mkdir_result:
  "srv_mkdir q mode w = Inr w2 \<Longrightarrow>
     present w2 q \<and> getSFTP w2 = getSFTP w \<and> (\<forall>r. present w r \<longrightarrow> present w2 r)"
  by (auto simp: srv_mkdir_def present_def getSFTP_def map_add_def split: if_splits option.splits)

lemma srv_mkdir_Failure:
  "srv_mkdir q mode w = Inl ''Failure'' \<Longrightarrow> present w q"
  by (auto simp: srv_mkdir_def present_def split: if_splits)

text \<open>A loop that succeeds leaves every prefix it visited on the server.\<close>

lemma mkdirRecursive_loop_creates:
  "getSFTP w = Inr h \<Longrightarrow> mkdirRecursive_loop mode cur parts w = (Inr (), w') \<Longrightarrow>
     getSFTP w' = Inr h \<and> (\<forall>r. present w r \<longrightarrow> present w' r)
     \<and> (\<forall>q\<in>set (visited_prefixes cur parts). present w' q)"
proof (induction parts arbitrary: cur w)
  case Nil
  then show ?case by simp
next
  case (Cons part parts)
  let ?c = "next_path cur part"
  obtain r1 w1 where s: "stat ?c w = (r1, w1)" by (cases "stat ?c w")
  show ?case
  proof (cases r1)
    case (Inr info)
    with s Cons.prems(1) have p: "present w ?c" and w1: "w1 = touch (called (Stat ?c) w)"
      by (auto simp: stat_def srv_stat_def present_def split: sum.splits option.splits if_splits)
    from Cons.prems(2) s Inr have "mkdirRecursive_loop mode ?c parts w1 = (Inr (), w')"
      by (simp add: Let_def)
    from Cons.IH [OF _ this] Cons.prems(1) w1 p show ?thesis by simp
  next
    case (Inl e)
    from stat_absent [OF Cons.prems(1) s [unfolded Inl]]
    have np: "\<not> present w ?c" and w1: "w1 = called (Stat ?c) w" by simp_all
    show ?thesis
    proof (cases "srv_mkdir ?c mode w1")
      case (Inl msg)
      with Cons.prems(2) s \<open>r1 = Inl e\<close> have "msg = ''Failure''"
        by (auto simp: Let_def split: if_splits)
      with Inl srv_mkdir_Failure [of ?c mode w1] np w1 show ?thesis by simp
    next
      case (Inr w2)
      with Cons.prems(2) s \<open>r1 = Inl e\<close>
      have l: "mkdirRecursive_loop mode ?c parts (called (Mkdir ?c) w2) = (Inr (), w')"
        by (simp add: Let_def)
      from srv_mkdir_result [OF Inr] w1 Cons.prems(1)
      have g: "getSFTP (called (Mkdir ?c) w2) = Inr h"
        and p: "present (called (Mkdir ?c) w2) ?c"
        and m: "\<forall>r. present w r \<longrightarrow> present (called (Mkdir ?c) w2) r"
        by simp_all
      from Cons.IH [OF g l] p m show ?thesis by simp
    qed
  qed
qed

text \<open>A loop over prefixes that are all on the server only asks for them.\<close>

lemma mkdirRecursive_loop_present:
  "getSFTP w = Inr h \<Longrightarrow> \<forall>q\<in>set (visited_prefixes cur parts). present w q \<Longrightarrow>
     \<exists>w'. mkdirRecursive_loop mode cur parts w = (Inr (), w') \<and> same_server w w'
       \<and> sftp_calls w' = sftp_calls w @ map Stat (visited_prefixes cur parts)
       \<and> date_now w' = date_now w \<and> localfs w' = localfs w"
proof (induction parts arbitrary: cur w)
  case Nil
  then show ?case by (simp add: same_server_def)
next
  case (Cons part parts)
  let ?c = "next_path cur part"
  let ?w1 = "touch (called (Stat ?c) w)"
  from Cons.prems have "present w ?c" by simp
  from stat_present [OF Cons.prems(1) this] obtain info where s: "stat ?c w = (Inr info, ?w1)"
    by blast
  have "getSFTP ?w1 = Inr h" "\<forall>q\<in>set (visited_prefixes ?c parts). present ?w1 q"
    using Cons.prems by simp_all
  from Cons.IH [OF this] obtain w' where
    "mkdirRecursive_loop mode ?c parts ?w1 = (Inr (), w')" "same_server ?w1 w'"
    "sftp_calls w' = sftp_calls ?w1 @ map Stat (visited_prefixes ?c parts)"
    "date_now w' = date_now ?w1" "localfs w' = localfs ?w1"
    by blast
  with s show ?case
    by (auto simp: Let_def same_server_def touch_def called_def)
qed


lemma mkdir_recursive:
  "mkdir p (Some \<lparr> mk_recursive = Some True, mk_mode = m \<rparr>) w =
     (case getSFTP w of Inl e \<Rightarrow> (Inl e, w) | Inr _ \<Rightarrow> mkdirRecursive p (nullish m 493) w)"
  by (simp add: mkdir_def nullish_def split: sum.splits)

text \<open>
  C8: when \<open>mkdir\<close> with \<open>recursive\<close> has succeeded, every prefix of the path is on the
  server, and a second call on the state it left succeeds as well: it only stats the
  prefixes, creates nothing and leaves the remote file system as it is.
\<close>

theorem mkdir_recursive_twice:
  assumes "mkdir p (Some \<lparr> mk_recursive = Some True, mk_mode = m \<rparr>) w0 = (Inr (), w)"
  shows "list_all (present w) (visited_prefixes (start_path p) (path_parts p))
       \<and> fst (mkdir p (Some \<lparr> mk_recursive = Some True, mk_mode = m \<rparr>) w) = Inr ()
       \<and> remote (snd (mkdir p (Some \<lparr> mk_recursive = Some True, mk_mode = m \<rparr>) w)) = remote w
       \<and> sftp_calls (snd (mkdir p (Some \<lparr> mk_recursive = Some True, mk_mode = m \<rparr>) w)) =
           sftp_calls w @ map Stat (visited_prefixes (start_path p) (path_parts p))"
proof -
  let ?mode = "nullish m 493"
  let ?ps = "visited_prefixes (start_path p) (path_parts p)"
  from assms obtain h where h0: "getSFTP w0 = Inr h"
    by (cases "getSFTP w0") (auto simp: mkdir_recursive)
  with assms have "mkdirRecursive p ?mode w0 = (Inr (), w)"
    by (simp add: mkdir_recursive)
  with h0 obtain w1 where
    l: "mkdirRecursive_loop ?mode (start_path p) (path_parts p) w0 = (Inr (), w1)"
    and w: "w = touch w1"
    by (auto simp: mkdirRecursive_def split: prod.splits sum.splits)
  from mkdirRecursive_loop_creates [OF h0 l] w
  have h: "getSFTP w = Inr h" and all: "\<forall>q\<in>set ?ps. present w q"
    by simp_all
  from mkdirRecursive_loop_present [OF h all, of ?mode] obtain w' where
    l': "mkdirRecursive_loop ?mode (start_path p) (path_parts p) w = (Inr (), w')"
    and s: "same_server w w'" and c: "sftp_calls w' = sftp_calls w @ map Stat ?ps"
    by blast
  from h l' have "mkdir p (Some \<lparr> mk_recursive = Some True, mk_mode = m \<rparr>) w = (Inr (), touch w')"
    by (simp add: mkdir_recursive mkdirRecursive_def)
  with s c all show ?thesis
    by (simp add: same_server_def list_all_iff touch_def)
qed

lemma first_mkdir: "fst (mkdir ''/srv/app/logs/2024'' recursively app_world) = Inr ()"
  by code_simp

theorem mkdir_recursive_twice_witness:
  "fst (mkdir ''/srv/app/logs/2024'' recursively app_world) = Inr ()
   \<and> fst (mkdir ''/srv/app/logs/2024'' recursively
           (snd (mkdir ''/srv/app/logs/2024'' recursively app_world))) = Inr ()
   \<and> sftp_calls (snd (mkdir ''/srv/app/logs/2024'' recursively
           (snd (mkdir ''/srv/app/logs/2024'' recursively app_world)))) =
       sftp_calls (snd (mkdir ''/srv/app/logs/2024'' recursively app_world))
         @ [Stat ''/srv'', Stat ''/srv/app'', Stat ''/srv/app/logs'', Stat ''/srv/app/logs/2024'']"
proof -
  let ?w = "snd (mkdir ''/srv/app/logs/2024'' recursively app_world)"
  have f: "mkdir ''/srv/app/logs/2024'' (Some \<lparr> mk_recursive = Some True, mk_mode = None \<rparr>) app_world
      = (Inr (), ?w)"
    using first_mkdir by (simp add: recursively_def prod_eq_iff)
  have v: "visited_prefixes (start_path ''/srv/app/logs/2024'') (path_parts ''/srv/app/logs/2024'')
      = [''/srv'', ''/srv/app'', ''/srv/app/logs'', ''/srv/app/logs/2024'']"
    by code_simp
  from mkdir_recursive_twice [OF f] v first_mkdir show ?thesis
    by (simp add: recursively_def)
qed

end
